theory Spec2Isabelle
  imports Main "HOL-Library.Word"
begin

section \<open>Python values used by \<open>extract_zip_files.py\<close>\<close>

text \<open>
  The script is a thin wrapper over \<open>os\<close>, \<open>os.path\<close>, \<open>zipfile\<close> and \<open>argparse\<close>.
  Its own two functions, \<open>extract\<close> and \<open>main\<close>, are embedded line by line; the library calls
  they make are embedded as functions on an explicit world (a file system and a working
  directory), following CPython 3.11 on a POSIX system.

  A Python \<open>str\<close> is a \<open>string\<close> (the functions below only compare characters with
  \<open>/\<close> and \<open>.\<close>), a \<open>bytes\<close> value a list of 8-bit words.
\<close>

type_synonym bytes = "8 word list"

text \<open>
  The exceptions that \<open>extract\<close> can raise. \<open>OSError\<close> stands for an \<open>OSError\<close> whose class
  is not \<open>FileNotFoundError\<close> (\<open>FileExistsError\<close>, \<open>NotADirectoryError\<close>,
  \<open>IsADirectoryError\<close>): \<open>main\<close> has no handler for any of them.
\<close>

datatype exn =
    ValueError string
  | FileNotFoundError string
  | BadZipFile string
  | OSError string
  | KeyError string

subsection \<open>\<open>str\<close> methods and \<open>posixpath\<close>\<close>

definition sep :: char where
  "sep = CHR ''/''"

definition extsep :: char where
  "extsep = CHR ''.''"

text \<open>\<open>s.endswith(suffix)\<close>: an exact, case-sensitive comparison of the last characters.\<close>

definition endswith :: "string \<Rightarrow> string \<Rightarrow> bool" where
  "endswith s suf = (length suf \<le> length s \<and> drop (length s - length suf) s = suf)"

text \<open>\<open>s.startswith(prefix)\<close>.\<close>

definition startswith :: "string \<Rightarrow> string \<Rightarrow> bool" where
  "startswith s pre = (take (length pre) s = pre)"

text \<open>\<open>s.rfind(c)\<close>: the highest index of \<open>c\<close> in \<open>s\<close>, or \<open>-1\<close>.\<close>

definition rfind :: "string \<Rightarrow> char \<Rightarrow> int" where
  "rfind s c =
     (if c \<in> set s
      then int (length s) - 1 - int (length (takeWhile (\<lambda>x. x \<noteq> c) (rev s)))
      else - 1)"

text \<open>\<open>posixpath.basename\<close>: \<open>i = p.rfind('/') + 1; return p[i:]\<close>.\<close>

definition basename :: "string \<Rightarrow> string" where
  "basename p = (let i = rfind p sep + 1 in drop (nat i) p)"

text \<open>
  \<open>genericpath._splitext\<close>. The loop skips the leading dots of the file name: a name that
  is dots up to its last dot has no extension.
\<close>

function splitext_loop :: "string \<Rightarrow> nat \<Rightarrow> nat \<Rightarrow> string \<times> string" where
  "splitext_loop p filenameIndex dotIndex =
     (if filenameIndex < dotIndex
      then (if take 1 (drop filenameIndex p) \<noteq> [extsep]
            then (take dotIndex p, drop dotIndex p)
            else splitext_loop p (filenameIndex + 1) dotIndex)
      else (p, []))"
  by pat_completeness auto
termination
  by (relation "measure (\<lambda>(p, filenameIndex, dotIndex). dotIndex - filenameIndex)") auto

declare splitext_loop.simps [simp del]

definition splitext :: "string \<Rightarrow> string \<times> string" where
  "splitext p =
     (let sepIndex = rfind p sep;
          dotIndex = rfind p extsep
      in if dotIndex > sepIndex
         then splitext_loop p (nat (sepIndex + 1)) (nat dotIndex)
         else (p, []))"

text \<open>
  \<open>posixpath.join(a, b)\<close> with one further component:
  an absolute \<open>b\<close> replaces \<open>a\<close>, otherwise \<open>b\<close> is appended after one separator.
\<close>

definition path_join :: "string \<Rightarrow> string \<Rightarrow> string" where
  "path_join a b =
     (if startswith b [sep] then b
      else if a = [] \<or> endswith a [sep] then a @ b
      else a @ [sep] @ b)"

text \<open>\<open>s.split('/')\<close>: the pieces between separators, empty pieces included.\<close>

fun split_on :: "char \<Rightarrow> string \<Rightarrow> string list" where
  "split_on c [] = [[]]"
| "split_on c (x # xs) =
     (if x = c then [] # split_on c xs
      else (case split_on c xs of
              [] \<Rightarrow> [[x]]
            | y # ys \<Rightarrow> (x # y) # ys))"

section \<open>The world: a file system and a working directory\<close>

text \<open>
  A file system maps an absolute path, given by its components from the root, to a
  directory or to a regular file with its bytes. The model has no symbolic links, no
  permissions and no quota. A path string is read relative to the working directory
  unless it starts with a slash; its empty and \<open>.\<close> components are skipped and \<open>..\<close> leads
  to the parent directory.

  The worlds meant are those of a real file system: the root and the working directory
  are directories, and whatever exists lies in a directory. The definitions are total on
  all worlds, and the theorems below hold for all of them.
\<close>

type_synonym path = "string list"

datatype node = Dir | File bytes

record world =
  files :: "path \<rightharpoonup> node"
  cwd :: string

text \<open>\<open>os.getcwd()\<close>.\<close>

definition getcwd :: "world \<Rightarrow> string" where
  "getcwd w = cwd w"

definition norm_comp :: "string \<Rightarrow> path \<Rightarrow> path" where
  "norm_comp c st =
     (if c = [] \<or> c = ''.'' then st
      else if c = ''..'' then butlast st
      else st @ [c])"

text \<open>
  Where the resolution of a path string starts: at the root for an absolute path, at the
  working directory (itself an absolute path) otherwise.
\<close>

definition start_dir :: "world \<Rightarrow> string \<Rightarrow> path" where
  "start_dir w p =
     (if startswith p [sep] then [] else fold norm_comp (split_on sep (cwd w)) [])"

text \<open>The directory or file a path string names, whether it exists or not.\<close>

definition resolve :: "world \<Rightarrow> string \<Rightarrow> path" where
  "resolve w p = fold norm_comp (split_on sep p) (start_dir w p)"

text \<open>
  Path resolution as the system calls do it: every component that is followed by another
  one must be an existing directory. The result is the path of the last component, which
  need not exist.
\<close>

fun walk :: "(path \<rightharpoonup> node) \<Rightarrow> path \<Rightarrow> string list \<Rightarrow> path option" where
  "walk fs cur [] = Some cur"
| "walk fs cur (c # cs) =
     (if c = [] \<or> c = ''.'' then walk fs cur cs
      else if c = ''..'' then walk fs (butlast cur) cs
      else if cs = [] then Some (cur @ [c])
      else (case fs (cur @ [c]) of
              Some Dir \<Rightarrow> walk fs (cur @ [c]) cs
            | _ \<Rightarrow> None))"

text \<open>\<open>os.stat\<close>: the node a path string names, if any. The empty string names nothing.\<close>

definition stat :: "world \<Rightarrow> string \<Rightarrow> node option" where
  "stat w p =
     (if p = [] then None
      else (case walk (files w) (start_dir w p) (split_on sep p) of
              None \<Rightarrow> None
            | Some q \<Rightarrow> files w q))"

text \<open>\<open>os.path.exists\<close> and \<open>os.path.isdir\<close>.\<close>

definition path_exists :: "world \<Rightarrow> string \<Rightarrow> bool" where
  "path_exists w p = (stat w p \<noteq> None)"

definition isdir :: "world \<Rightarrow> string \<Rightarrow> bool" where
  "isdir w p = (stat w p = Some Dir)"

text \<open>
  The effect of \<open>os.makedirs(name, exist_ok=True)\<close>, component by component from the
  directory \<open>cur\<close>: a missing directory is made, an existing one is entered, and a regular
  file in the way ends the call with \<open>FileExistsError\<close> or \<open>NotADirectoryError\<close>. What was
  made before the error stays. (\<open>os.makedirs\<close> recurses on \<open>os.path.split\<close> up to the first
  path that exists and calls \<open>mkdir\<close> on the way back, accepting a directory that is there:
  the same directories in the same order.)
\<close>

fun mkdirs :: "(path \<rightharpoonup> node) \<Rightarrow> path \<Rightarrow> string list \<Rightarrow> (exn + unit) \<times> (path \<rightharpoonup> node)" where
  "mkdirs fs cur [] = (Inr (), fs)"
| "mkdirs fs cur (c # cs) =
     (if c = [] \<or> c = ''.'' then mkdirs fs cur cs
      else if c = ''..'' then mkdirs fs (butlast cur) cs
      else (case fs (cur @ [c]) of
              None \<Rightarrow> mkdirs (fs(cur @ [c] \<mapsto> Dir)) (cur @ [c]) cs
            | Some Dir \<Rightarrow> mkdirs fs (cur @ [c]) cs
            | Some (File b) \<Rightarrow> (Inl (OSError ''File exists or not a directory''), fs)))"

text \<open>\<open>os.makedirs(name, exist_ok=True)\<close>; \<open>mkdir('')\<close> fails with \<open>ENOENT\<close>.\<close>

definition makedirs :: "string \<Rightarrow> world \<Rightarrow> (exn + unit) \<times> world" where
  "makedirs name w =
     (if name = []
      then (Inl (FileNotFoundError (''[Errno 2] No such file or directory: '' @ [CHR 0x27, CHR 0x27])), w)
      else (case mkdirs (files w) (start_dir w name) (split_on sep name) of
              (r, fs) \<Rightarrow> (r, w\<lparr>files := fs\<rparr>)))"

section \<open>\<open>zipfile\<close>\<close>

text \<open>
  Reading the central directory of an archive is a parameter of the model: a decoder
  takes the bytes of a file to the message of \<open>BadZipFile\<close> or to the archive's
  \<open>ZipInfo\<close> list, in archive order. Every member's data is taken to be readable, and
  to be read when the archive is opened; \<open>zipfile\<close> reads a member when it extracts it,
  which makes a difference only for a run that writes over the archive itself.
\<close>

record zip_info =
  filename :: string
  data :: bytes

type_synonym decoder = "bytes \<Rightarrow> string + zip_info list"

text \<open>\<open>ZipInfo.is_dir\<close>: the name ends with a slash.\<close>

definition is_dir :: "zip_info \<Rightarrow> bool" where
  "is_dir member = endswith (filename member) [sep]"

text \<open>\<open>ZipFile.namelist\<close>.\<close>

definition namelist :: "zip_info list \<Rightarrow> string list" where
  "namelist filelist = map filename filelist"

text \<open>
  \<open>ZipFile.getinfo\<close> looks a name up in \<open>NameToInfo\<close>, where a later member of the same name
  has replaced an earlier one.
\<close>

definition getinfo :: "zip_info list \<Rightarrow> string \<Rightarrow> zip_info option" where
  "getinfo filelist name = find (\<lambda>member. filename member = name) (rev filelist)"

text \<open>
  The member's name as \<open>_extract_member\<close> uses it: split at slashes, with the empty, \<open>.\<close>
  and \<open>..\<close> pieces removed.
\<close>

definition arcname :: "zip_info \<Rightarrow> path" where
  "arcname member =
     filter (\<lambda>x. x \<noteq> [] \<and> x \<noteq> ''.'' \<and> x \<noteq> ''..'') (split_on sep (filename member))"

text \<open>\<open>os.mkdir\<close> and \<open>open(path, "wb")\<close> followed by the write, on a resolved path.\<close>

definition mkdir_at :: "(path \<rightharpoonup> node) \<Rightarrow> path \<Rightarrow> (exn + unit) \<times> (path \<rightharpoonup> node)" where
  "mkdir_at fs t =
     (if fs t \<noteq> None then (Inl (OSError ''File exists''), fs)
      else (case fs (butlast t) of
              Some Dir \<Rightarrow> (Inr (), fs(t \<mapsto> Dir))
            | Some (File b) \<Rightarrow> (Inl (OSError ''Not a directory''), fs)
            | None \<Rightarrow> (Inl (FileNotFoundError ''[Errno 2] No such file or directory''), fs)))"

definition write_file :: "(path \<rightharpoonup> node) \<Rightarrow> path \<Rightarrow> bytes \<Rightarrow> (exn + unit) \<times> (path \<rightharpoonup> node)" where
  "write_file fs t b =
     (if fs t = Some Dir then (Inl (OSError ''Is a directory''), fs)
      else (case fs (butlast t) of
              Some Dir \<Rightarrow> (Inr (), fs(t \<mapsto> File b))
            | Some (File c) \<Rightarrow> (Inl (OSError ''Not a directory''), fs)
            | None \<Rightarrow> (Inl (FileNotFoundError ''[Errno 2] No such file or directory''), fs)))"

text \<open>
  \<open>ZipFile._extract_member\<close>, on the resolved target directory. The target path, which
  \<open>zipfile\<close> builds with \<open>os.path.join\<close> and \<open>os.path.normpath\<close>, is the directory's path
  followed by the sanitised name; the directories above it are made when missing
  (\<open>os.makedirs(upperdirs)\<close>); a directory member is made unless it is there, a file member
  is written.
\<close>

definition extract_member ::
  "(path \<rightharpoonup> node) \<Rightarrow> path \<Rightarrow> zip_info \<Rightarrow> (exn + unit) \<times> (path \<rightharpoonup> node)" where
  "extract_member fs targetdir member =
     (let targetpath = targetdir @ arcname member;
          upperdirs = butlast targetpath
      in case (if fs upperdirs = None then mkdirs fs [] upperdirs else (Inr (), fs)) of
           (Inl e, fs1) \<Rightarrow> (Inl e, fs1)
         | (Inr u, fs1) \<Rightarrow>
             if is_dir member
             then (if fs1 targetpath = Some Dir then (Inr (), fs1) else mkdir_at fs1 targetpath)
             else write_file fs1 targetpath (data member))"

text \<open>The loop of \<open>ZipFile.extractall\<close> over the names of \<open>namelist()\<close>.\<close>

fun extract_names ::
  "zip_info list \<Rightarrow> path \<Rightarrow> string list \<Rightarrow> (path \<rightharpoonup> node) \<Rightarrow> (exn + unit) \<times> (path \<rightharpoonup> node)" where
  "extract_names filelist targetdir [] fs = (Inr (), fs)"
| "extract_names filelist targetdir (name # names) fs =
     (case getinfo filelist name of
        None \<Rightarrow> (Inl (KeyError name), fs)
      | Some member \<Rightarrow>
          (case extract_member fs targetdir member of
             (Inl e, fs1) \<Rightarrow> (Inl e, fs1)
           | (Inr u, fs1) \<Rightarrow> extract_names filelist targetdir names fs1))"

definition extractall :: "zip_info list \<Rightarrow> string \<Rightarrow> world \<Rightarrow> (exn + unit) \<times> world" where
  "extractall filelist path w =
     (case extract_names filelist (resolve w path) (namelist filelist) (files w) of
        (r, fs) \<Rightarrow> (r, w\<lparr>files := fs\<rparr>))"

text \<open>\<open>zipfile.ZipFile(file, "r")\<close>: the file is opened and its central directory read.\<close>

definition ZipFile :: "decoder \<Rightarrow> string \<Rightarrow> world \<Rightarrow> exn + zip_info list" where
  "ZipFile dec file w =
     (case stat w file of
        None \<Rightarrow> Inl (FileNotFoundError ''[Errno 2] No such file or directory'')
      | Some Dir \<Rightarrow> Inl (OSError ''Is a directory'')
      | Some (File b) \<Rightarrow>
          (case dec b of
             Inl msg \<Rightarrow> Inl (BadZipFile msg)
           | Inr filelist \<Rightarrow> Inr filelist))"

section \<open>\<open>extract\<close>\<close>

text \<open>
  Lines 35 to 48 of the script. The result is the exception raised, or \<open>()\<close> for a normal
  return, with the world as the call left it.
\<close>

definition
  "extract (dec :: decoder) (zip_path :: string) (output_dir :: string option) (w :: world) =
     (if \<not> endswith zip_path ''.zip''
      then (Inl (ValueError (''Not a zip file: '' @ zip_path)), w)
      else if \<not> path_exists w zip_path
      then (Inl (FileNotFoundError (''Zip file not found: '' @ zip_path)), w)
      else
        let archive_name = fst (splitext (basename zip_path));
            output_dir = (case output_dir of
                            None \<Rightarrow> path_join (getcwd w) archive_name
                          | Some d \<Rightarrow> d)
        in case makedirs output_dir w of
             (Inl e, w1) \<Rightarrow> (Inl e, w1)
           | (Inr u, w1) \<Rightarrow>
               (case ZipFile dec zip_path w1 of
                  Inl e \<Rightarrow> (Inl e, w1)
                | Inr archive \<Rightarrow> extractall archive output_dir w1))"

section \<open>\<open>argparse\<close>\<close>

text \<open>
  The parser of \<open>_build_parser\<close> has three actions, all optionals: the help action that
  \<open>ArgumentParser\<close> adds by itself, and one storing action for each \<open>add_argument\<close> call.
  \<open>parse_args\<close> below follows \<open>ArgumentParser._parse_known_args\<close> of CPython 3.11 for such
  a parser: no positionals, no mutually exclusive groups, no \<open>fromfile_prefix_chars\<close>.
\<close>

datatype dest = Zippedfile | Output

datatype action = HelpAction | StoreAction dest

record parser =
  prog :: string
  description :: string
  option_string_actions :: "(string \<times> action) list"
  required :: "dest list"

text \<open>\<open>_build_parser\<close>, lines 51 to 74.\<close>

definition build_parser :: parser where
  "build_parser =
     \<lparr> prog = ''extract_zip_files'',
       description = ''Extract a .zip archive to a directory (defaults to archive name)'',
       option_string_actions =
         [(''-h'', HelpAction), (''--help'', HelpAction),
          (''-l'', StoreAction Zippedfile), (''--zippedfile'', StoreAction Zippedfile),
          (''-o'', StoreAction Output), (''--output'', StoreAction Output)],
       required = [Zippedfile] \<rparr>"

text \<open>The messages of \<open>parser.error\<close>, by kind.\<close>

datatype parse_error =
    Ambiguous string "string list"
  | ExpectedOneArgument action
  | IgnoredExplicitArgument action string
  | RequiredMissing "dest list"
  | Unrecognized "string list"

text \<open>An option tuple: action (if any), option string, separator, explicit argument.\<close>

datatype option_tuple = OptionTuple "action option" string "string option" "string option"

datatype arg_pattern = PatA | PatO option_tuple | PatDash

text \<open>\<open>s.partition(c)\<close>.\<close>

definition str_partition :: "string \<Rightarrow> char \<Rightarrow> string \<times> string \<times> string" where
  "str_partition s c =
     (if c \<in> set s
      then (takeWhile (\<lambda>x. x \<noteq> c) s, [c], tl (dropWhile (\<lambda>x. x \<noteq> c) s))
      else (s, [], []))"

definition is_digit :: "char \<Rightarrow> bool" where
  "is_digit c = (c \<in> set ''0123456789'')"

text \<open>
  \<open>_negative_number_matcher\<close>, the regular expression \<open>^-\d+$|^-\d*\.\d+$\<close>, where \<open>$\<close> also
  matches before a final line feed.
\<close>

definition negative_number_exact :: "string \<Rightarrow> bool" where
  "negative_number_exact s =
     (case s of
        [] \<Rightarrow> False
      | c # r \<Rightarrow>
          c = CHR ''-'' \<and>
          ((r \<noteq> [] \<and> list_all is_digit r) \<or>
           (case dropWhile is_digit r of
              [] \<Rightarrow> False
            | d # es \<Rightarrow> d = CHR ''.'' \<and> es \<noteq> [] \<and> list_all is_digit es)))"

definition negative_number :: "string \<Rightarrow> bool" where
  "negative_number s =
     (negative_number_exact s \<or>
      (s \<noteq> [] \<and> last s = CHR 0x0A \<and> negative_number_exact (butlast s)))"

text \<open>\<open>_get_option_tuples\<close>, called on a string of at least two characters that starts with \<open>-\<close>.\<close>

definition get_option_tuples :: "parser \<Rightarrow> string \<Rightarrow> option_tuple list" where
  "get_option_tuples p option_string =
     (if option_string ! 1 = CHR ''-''
      then (case str_partition option_string (CHR ''='') of
              (option_prefix, sp, explicit_arg) \<Rightarrow>
                concat (map (\<lambda>(os, a).
                  if startswith os option_prefix
                  then [OptionTuple (Some a) os
                          (if sp = [] then None else Some sp)
                          (if sp = [] then None else Some explicit_arg)]
                  else []) (option_string_actions p)))
      else (let option_prefix = option_string;
                short_option_prefix = take 2 option_string;
                short_explicit_arg = drop 2 option_string
            in concat (map (\<lambda>(os, a).
                 if os = short_option_prefix
                 then [OptionTuple (Some a) os (Some []) (Some short_explicit_arg)]
                 else if startswith os option_prefix
                 then [OptionTuple (Some a) os None None]
                 else []) (option_string_actions p))))"

text \<open>\<open>_parse_optional\<close>: \<open>None\<close> for a positional, an option tuple otherwise.\<close>

definition parse_optional :: "parser \<Rightarrow> string \<Rightarrow> parse_error + option_tuple option" where
  "parse_optional p arg_string =
     (if arg_string = [] then Inr None
      else if hd arg_string \<noteq> CHR ''-'' then Inr None
      else (case map_of (option_string_actions p) arg_string of
              Some a \<Rightarrow> Inr (Some (OptionTuple (Some a) arg_string None None))
            | None \<Rightarrow>
                if length arg_string = 1 then Inr None
                else (case str_partition arg_string (CHR ''='') of
                        (option_string, sp, explicit_arg) \<Rightarrow>
                  (case (if sp \<noteq> [] then map_of (option_string_actions p) option_string
                         else None) of
                     Some a \<Rightarrow>
                       Inr (Some (OptionTuple (Some a) option_string (Some sp) (Some explicit_arg)))
                   | None \<Rightarrow>
                       (case get_option_tuples p arg_string of
                          [] \<Rightarrow>
                            if negative_number arg_string then Inr None
                            else if CHR 0x20 \<in> set arg_string then Inr None
                            else Inr (Some (OptionTuple None arg_string None None))
                        | [t] \<Rightarrow> Inr (Some t)
                        | t1 # t2 # ts \<Rightarrow>
                            Inl (Ambiguous arg_string
                                   (map (\<lambda>t. case t of OptionTuple a os sp ex \<Rightarrow> os)
                                        (t1 # t2 # ts))))))))"

text \<open>
  The first loop of \<open>_parse_known_args\<close>: every argument is an option (\<open>O\<close>) or a plain
  argument (\<open>A\<close>); after \<open>--\<close> all are plain arguments.
\<close>

fun arg_patterns :: "parser \<Rightarrow> string list \<Rightarrow> parse_error + arg_pattern list" where
  "arg_patterns p [] = Inr []"
| "arg_patterns p (arg_string # arg_strings) =
     (if arg_string = ''--'' then Inr (PatDash # map (\<lambda>a. PatA) arg_strings)
      else (case parse_optional p arg_string of
              Inl err \<Rightarrow> Inl err
            | Inr t \<Rightarrow>
                (case arg_patterns p arg_strings of
                   Inl err \<Rightarrow> Inl err
                 | Inr ps \<Rightarrow> Inr ((case t of None \<Rightarrow> PatA | Some ot \<Rightarrow> PatO ot) # ps))))"

text \<open>
  \<open>consume_optional\<close>: the actions one option string stands for, how many of the following
  arguments they take, and what goes to \<open>extras\<close>. A storing action takes its explicit
  argument or the next plain argument; the help action takes none, and a single-dash
  option string may go on with further single-dash options.
\<close>

function consume_optional ::
  "parser \<Rightarrow> (string \<times> arg_pattern) list \<Rightarrow> action \<Rightarrow> string \<Rightarrow> string option \<Rightarrow> string option \<Rightarrow>
   (action \<times> string list) list \<Rightarrow>
   parse_error + ((action \<times> string list) list \<times> nat \<times> string list)" where
  "consume_optional p following action option_string sp explicit_arg action_tuples =
     (case explicit_arg of
        Some e \<Rightarrow>
          if action = HelpAction \<and> option_string ! 1 \<noteq> CHR ''-'' \<and> e \<noteq> []
          then (if sp = Some ''='' \<or> hd e = CHR ''-''
                then Inl (IgnoredExplicitArgument action e)
                else (case map_of (option_string_actions p) [CHR ''-'', hd e] of
                        Some action' \<Rightarrow>
                          if tl e = []
                          then consume_optional p following action' [CHR ''-'', hd e] None None
                                 (action_tuples @ [(action, [])])
                          else if hd (tl e) = CHR ''=''
                          then consume_optional p following action' [CHR ''-'', hd e]
                                 (Some ''='') (Some (tl (tl e))) (action_tuples @ [(action, [])])
                          else consume_optional p following action' [CHR ''-'', hd e]
                                 (Some []) (Some (tl e)) (action_tuples @ [(action, [])])
                      | None \<Rightarrow> Inr (action_tuples @ [(action, [])], 0, [CHR ''-'' # e])))
          else if action \<noteq> HelpAction
          then Inr (action_tuples @ [(action, [e])], 0, [])
          else Inl (IgnoredExplicitArgument action e)
      | None \<Rightarrow>
          if action = HelpAction then Inr (action_tuples @ [(action, [])], 0, [])
          else (case following of
                  (s, PatA) # rest \<Rightarrow> Inr (action_tuples @ [(action, [s])], 1, [])
                | _ \<Rightarrow> Inl (ExpectedOneArgument action)))"
  by pat_completeness auto
termination
  by (relation "measure (\<lambda>(p, following, action, option_string, sp, explicit_arg, action_tuples).
        case explicit_arg of None \<Rightarrow> 0 | Some e \<Rightarrow> Suc (length e))")
     (auto simp: neq_Nil_conv)

declare consume_optional.simps [simp del]

record namespace =
  ns_zippedfile :: "string option"
  ns_output :: "string option"

text \<open>
  \<open>take_action\<close> for each action of the option string, in order. The help action prints
  the help and exits (\<open>Inl\<close>); a storing action sets its attribute to its one argument.
\<close>

fun take_actions :: "(action \<times> string list) list \<Rightarrow> namespace \<Rightarrow> unit + namespace" where
  "take_actions [] ns = Inr ns"
| "take_actions ((HelpAction, args) # ts) ns = Inl ()"
| "take_actions ((StoreAction Zippedfile, args) # ts) ns =
     take_actions ts (ns\<lparr>ns_zippedfile := Some (concat args)\<rparr>)"
| "take_actions ((StoreAction Output, args) # ts) ns =
     take_actions ts (ns\<lparr>ns_output := Some (concat args)\<rparr>)"

datatype parsed = Args string "string option" | HelpExit | UsageError parse_error

text \<open>
  The end of \<open>_parse_known_args\<close> and of \<open>parse_args\<close>: a required action that was not seen
  is an error, and so is any argument left over.
\<close>

definition finish :: "parser \<Rightarrow> namespace \<Rightarrow> string list \<Rightarrow> parsed" where
  "finish p ns extras =
     (case ns_zippedfile ns of
        None \<Rightarrow> UsageError (RequiredMissing (required p))
      | Some z \<Rightarrow> if extras \<noteq> [] then UsageError (Unrecognized extras) else Args z (ns_output ns))"

text \<open>The main loop of \<open>_parse_known_args\<close>, over the arguments with their patterns.\<close>

function consume_args ::
  "parser \<Rightarrow> (string \<times> arg_pattern) list \<Rightarrow> namespace \<Rightarrow> string list \<Rightarrow> parsed" where
  "consume_args p [] ns extras = finish p ns extras"
| "consume_args p ((s, pat) # rest) ns extras =
     (case pat of
        PatO (OptionTuple (Some action) option_string sp explicit_arg) \<Rightarrow>
          (case consume_optional p rest action option_string sp explicit_arg [] of
             Inl err \<Rightarrow> UsageError err
           | Inr (action_tuples, n, skipped) \<Rightarrow>
               (case take_actions action_tuples ns of
                  Inl u \<Rightarrow> HelpExit
                | Inr ns' \<Rightarrow> consume_args p (drop n rest) ns' (extras @ skipped)))
      | _ \<Rightarrow> consume_args p rest ns (extras @ [s]))"
  by pat_completeness auto
termination
  by (relation "measure (\<lambda>(p, args, ns, extras). length args)") auto

definition parse_args :: "parser \<Rightarrow> string list \<Rightarrow> parsed" where
  "parse_args p arg_strings =
     (case arg_patterns p arg_strings of
        Inl err \<Rightarrow> UsageError err
      | Inr ps \<Rightarrow>
          consume_args p (zip arg_strings ps) \<lparr>ns_zippedfile = None, ns_output = None\<rparr> [])"

section \<open>\<open>main\<close> and the script\<close>

text \<open>
  What the process writes: a \<open>print\<close> call is one line of text; the usage text and the help
  text of \<open>argparse\<close> and the traceback of an uncaught exception are kept abstract.
\<close>

datatype printed =
    Text string
  | ArgparseUsage
  | ArgparseError parse_error
  | ArgparseHelp
  | Traceback exn

record process =
  env :: world
  stdout :: "printed list"
  stderr :: "printed list"

text \<open>
  What leaves \<open>main\<close> other than a returned exit code: the \<open>SystemExit\<close> of \<open>argparse\<close>, or
  an exception of \<open>extract\<close> that no \<open>except\<close> clause catches.
\<close>

datatype raised = SystemExit int | Uncaught exn

text \<open>
  \<open>ArgumentParser.exit(status, message)\<close> writes the message to the error stream and
  raises \<open>SystemExit(status)\<close>; \<open>ArgumentParser.error(message)\<close> prints the usage to the
  error stream and calls \<open>exit(2, message)\<close>; the help action calls \<open>print_help()\<close>, which
  writes to standard output, and \<open>exit()\<close>, whose status is 0.
\<close>

definition parser_exit :: "int \<Rightarrow> printed list \<Rightarrow> process \<Rightarrow> raised \<times> process" where
  "parser_exit status message s = (SystemExit status, s\<lparr>stderr := stderr s @ message\<rparr>)"

definition parser_error :: "parse_error \<Rightarrow> process \<Rightarrow> raised \<times> process" where
  "parser_error err s = parser_exit 2 [ArgparseError err] (s\<lparr>stderr := stderr s @ [ArgparseUsage]\<rparr>)"

definition print_help :: "process \<Rightarrow> process" where
  "print_help s = s\<lparr>stdout := stdout s @ [ArgparseHelp]\<rparr>"

text \<open>
  \<open>main\<close>, lines 77 to 98: the exit code it returns, or what is raised out of it.
  \<open>parse_args\<close> leaves through \<open>SystemExit\<close>: by the help action, or by \<open>parser.error\<close>.
\<close>

definition main :: "decoder \<Rightarrow> string list \<Rightarrow> process \<Rightarrow> (raised + int) \<times> process" where
  "main dec argv s =
     (let parser = build_parser
      in case parse_args parser argv of
           HelpExit \<Rightarrow> (case parser_exit 0 [] (print_help s) of (r, s') \<Rightarrow> (Inl r, s'))
         | UsageError err \<Rightarrow> (case parser_error err s of (r, s') \<Rightarrow> (Inl r, s'))
         | Args zip_path outp \<Rightarrow>
             (case extract dec zip_path outp (env s) of
                (Inl (FileNotFoundError msg), w) \<Rightarrow>
                  (Inr 2, s\<lparr>env := w, stderr := stderr s @ [Text msg]\<rparr>)
              | (Inl (ValueError msg), w) \<Rightarrow>
                  (Inr 3, s\<lparr>env := w, stderr := stderr s @ [Text msg]\<rparr>)
              | (Inl (BadZipFile msg), w) \<Rightarrow>
                  (Inr 4, s\<lparr>env := w, stderr := stderr s @ [Text (''Invalid zip file: '' @ msg)]\<rparr>)
              | (Inl e, w) \<Rightarrow> (Inl (Uncaught e), s\<lparr>env := w\<rparr>)
              | (Inr u, w) \<Rightarrow>
                  (Inr 0, s\<lparr>env := w, stdout := stdout s @ [Text ''Extracted successfully.'']\<rparr>)))"

text \<open>
  \<open>print(s)\<close> writes \<open>s\<close> and a line feed: as many lines as \<open>s\<close> has line feeds, and one.
\<close>

definition print_lines :: "string \<Rightarrow> nat" where
  "print_lines s = Suc (length (filter (\<lambda>c. c = CHR 0x0A) s))"

text \<open>
  The last two lines, \<open>raise SystemExit(main())\<close>, as the process sees them: the exit status
  with what was written. An exception other than \<open>SystemExit\<close> ends the process with a
  traceback and status 1.
\<close>

definition script :: "decoder \<Rightarrow> string list \<Rightarrow> world \<Rightarrow> int \<times> process" where
  "script dec argv w =
     (case main dec argv \<lparr>env = w, stdout = [], stderr = []\<rparr> of
        (Inr code, s) \<Rightarrow> (code, s)
      | (Inl (SystemExit code), s) \<Rightarrow> (code, s)
      | (Inl (Uncaught e), s) \<Rightarrow> (1, s\<lparr>stderr := stderr s @ [Traceback e]\<rparr>))"

section \<open>An example world\<close>

text \<open>
  A small file system for the concrete statements below: the bytes \<open>example_archive\<close> are
  read by \<open>example_decoder\<close> as an archive with the entries \<open>a.txt\<close> and \<open>dir/b.txt\<close>, the
  bytes \<open>overwriting_archive\<close> as an archive whose one entry, empty, has the name \<open>a.zip\<close> of
  the archive's own file; any other file is not an archive.
\<close>

definition example_archive :: bytes where
  "example_archive = [0x50, 0x4B, 0x03, 0x04]"

definition example_entries :: "zip_info list" where
  "example_entries =
     [\<lparr>filename = ''a.txt'', data = [0x61]\<rparr>, \<lparr>filename = ''dir/b.txt'', data = [0x62, 0x0A]\<rparr>]"

definition overwriting_archive :: bytes where
  "overwriting_archive = [0x50, 0x4B, 0x05, 0x06]"

definition overwriting_entries :: "zip_info list" where
  "overwriting_entries = [\<lparr>filename = ''a.zip'', data = []\<rparr>]"

definition example_decoder :: decoder where
  "example_decoder b =
     (if b = example_archive then Inr example_entries
      else if b = overwriting_archive then Inr overwriting_entries
      else Inl ''File is not a zip file'')"

definition example_world :: world where
  "example_world =
     \<lparr> files = [[] \<mapsto> Dir,
                [''tmp''] \<mapsto> Dir,
                [''tmp'', ''foo.zip''] \<mapsto> File example_archive,
                [''tmp'', ''FOO.ZIP''] \<mapsto> File example_archive,
                [''tmp'', ''bad.zip''] \<mapsto> File [0x00, 0x01],
                [''tmp'', ''.zip''] \<mapsto> File example_archive,
                [''tmp'', ''d.zip''] \<mapsto> Dir,
                [''home''] \<mapsto> Dir,
                [''home'', ''user''] \<mapsto> Dir,
                [''w''] \<mapsto> Dir,
                [''w'', ''a.zip''] \<mapsto> File overwriting_archive],
       cwd = ''/home/user'' \<rparr>"


text \<open>\<open>str.lower\<close> on the ASCII letters, to speak of the casing of a suffix.\<close>

definition ascii_lower :: "char \<Rightarrow> char" where
  "ascii_lower c =
     (if (65::nat) \<le> of_char c \<and> of_char c \<le> (90::nat) then char_of (of_char c + (32::nat)) else c)"


section \<open>Notions for the statements about the file system\<close>

text \<open>The value of \<open>output_dir\<close> after line 43: the directory \<open>extract\<close> works in.\<close>

definition destination :: "world \<Rightarrow> string \<Rightarrow> string option \<Rightarrow> string" where
  "destination w zip_path output_dir =
     (case output_dir of
        None \<Rightarrow> path_join (getcwd w) (fst (splitext (basename zip_path)))
      | Some d \<Rightarrow> d)"

text \<open>A list of path components without empty, \<open>.\<close> and \<open>..\<close> components.\<close>

definition clean :: "string list \<Rightarrow> bool" where
  "clean cs = (\<forall>c\<in>set cs. c \<noteq> [] \<and> c \<noteq> ''.'' \<and> c \<noteq> ''..'')"

text \<open>
  One file system against a later one: what was a directory is a directory, what was a
  regular file is a regular file, perhaps with other bytes.
\<close>

definition kinds_le :: "(path \<rightharpoonup> node) \<Rightarrow> (path \<rightharpoonup> node) \<Rightarrow> bool" where
  "kinds_le f g =
     (\<forall>p. (f p = Some Dir \<longrightarrow> g p = Some Dir) \<and>
          (\<forall>b. f p = Some (File b) \<longrightarrow> (\<exists>c. g p = Some (File c))))"

text \<open>The first step of \<open>_extract_member\<close>: the directories above the target path.\<close>

definition above :: "(path \<rightharpoonup> node) \<Rightarrow> path \<Rightarrow> (exn + unit) \<times> (path \<rightharpoonup> node)" where
  "above fs t = (if fs (butlast t) = None then mkdirs fs [] (butlast t) else (Inr (), fs))"

text \<open>The paths that the file members of the given names are written to.\<close>

definition file_targets :: "zip_info list \<Rightarrow> path \<Rightarrow> string list \<Rightarrow> path set" where
  "file_targets fl D names =
     {t. \<exists>n\<in>set names. \<exists>m. getinfo fl n = Some m \<and> \<not> is_dir m \<and> t = D @ arcname m}"

text \<open>
  The default directory in the words of the specification: the working directory joined
  with the archive's base name, stripped of its directory components and of its extension.
  The base name is what follows the last slash; the extension is the last dot of the name
  and what follows it, where the dots that a name begins with do not count (a name such as
  \<open>.profile\<close> has no extension: this is the notion of \<open>os.path.splitext\<close>, which lines 41 to
  43 use); joining puts one slash between the directory and the name.
\<close>

definition spec_strip_directory :: "string \<Rightarrow> string" where
  "spec_strip_directory p = rev (takeWhile (\<lambda>c. c \<noteq> CHR ''/'') (rev p))"

definition spec_strip_extension :: "string \<Rightarrow> string" where
  "spec_strip_extension name =
     (let dots = takeWhile (\<lambda>c. c = CHR ''.'') name;
          rest = dropWhile (\<lambda>c. c = CHR ''.'') name
      in if CHR ''.'' \<in> set rest
         then dots @ rev (tl (dropWhile (\<lambda>c. c \<noteq> CHR ''.'') (rev rest)))
         else name)"

definition spec_join :: "string \<Rightarrow> string \<Rightarrow> string" where
  "spec_join dir name =
     (if dir = [] \<or> last dir = CHR ''/'' then dir @ name else dir @ ''/'' @ name)"

definition spec_default_destination :: "string \<Rightarrow> string \<Rightarrow> string" where
  "spec_default_destination dir zip_path =
     spec_join dir (spec_strip_extension (spec_strip_directory zip_path))"

section \<open>Exit codes of the script\<close>

text \<open>What the process does with each outcome of \<open>extract\<close>, once the arguments are parsed.\<close>

lemma script_ValueError:
  assumes "parse_args build_parser argv = Args zip_path outp"
    and "extract dec zip_path outp w = (Inl (ValueError msg), w')"
  shows "script dec argv w = (3, \<lparr>env = w', stdout = [], stderr = [Text msg]\<rparr>)"
  using assms by (simp add: script_def main_def)

lemma script_FileNotFoundError:
  assumes "parse_args build_parser argv = Args zip_path outp"
    and "extract dec zip_path outp w = (Inl (FileNotFoundError msg), w')"
  shows "script dec argv w = (2, \<lparr>env = w', stdout = [], stderr = [Text msg]\<rparr>)"
  using assms by (simp add: script_def main_def)


lemma script_success:
  assumes "parse_args build_parser argv = Args zip_path outp"
    and "extract dec zip_path outp w = (Inr (), w')"
  shows "script dec argv w =
           (0, \<lparr>env = w', stdout = [Text ''Extracted successfully.''], stderr = []\<rparr>)"
  using assms by (simp add: script_def main_def)

lemma script_OSError:
  assumes "parse_args build_parser argv = Args zip_path outp"
    and "extract dec zip_path outp w = (Inl (OSError msg), w')"
  shows "script dec argv w =
           (1, \<lparr>env = w', stdout = [], stderr = [Traceback (OSError msg)]\<rparr>)"
  using assms by (simp add: script_def main_def)

lemma script_usage_error:
  "parse_args build_parser argv = UsageError err \<Longrightarrow>
   script dec argv w = (2, \<lparr>env = w, stdout = [], stderr = [ArgparseUsage, ArgparseError err]\<rparr>)"
  by (simp add: script_def main_def parser_error_def parser_exit_def)

lemma script_help:
  "parse_args build_parser argv = HelpExit \<Longrightarrow>
   script dec argv w = (0, \<lparr>env = w, stdout = [ArgparseHelp], stderr = []\<rparr>)"
  by (simp add: script_def main_def print_help_def parser_exit_def)

section \<open>Validation failures\<close>

text \<open>
  C2: for every path string that does not end with \<open>.zip\<close>, \<open>extract\<close> raises \<open>ValueError\<close>
  and leaves the world as it was: no directory is created and no entry is written. The
  script prints the message to the error stream and exits with code 3.
\<close>

theorem extract_rejects_other_suffix:
  assumes "\<not> endswith zip_path ''.zip''"
    and "parse_args build_parser argv = Args zip_path output_dir"
  shows "extract dec zip_path output_dir w = (Inl (ValueError (''Not a zip file: '' @ zip_path)), w) \<and>
         script dec argv w =
           (3, \<lparr>env = w, stdout = [], stderr = [Text (''Not a zip file: '' @ zip_path)]\<rparr>)"
proof -
  have e: "extract dec zip_path output_dir w = (Inl (ValueError (''Not a zip file: '' @ zip_path)), w)"
    using assms(1) by (simp add: extract_def)
  from script_ValueError [OF assms(2) e] e show ?thesis by simp
qed

theorem extract_rejects_other_suffix_witness:
  "\<not> endswith ''notes.txt'' ''.zip'' \<and>
   parse_args build_parser [''-l'', ''notes.txt''] = Args ''notes.txt'' None \<and>
   extract example_decoder ''notes.txt'' None example_world =
     (Inl (ValueError ''Not a zip file: notes.txt''), example_world) \<and>
   script example_decoder [''-l'', ''notes.txt''] example_world =
     (3, \<lparr>env = example_world, stdout = [], stderr = [Text ''Not a zip file: notes.txt'']\<rparr>)"
proof -
  have h1: "\<not> endswith ''notes.txt'' ''.zip''" by (simp add: endswith_def)
  have h2: "parse_args build_parser [''-l'', ''notes.txt''] = Args ''notes.txt'' None" by code_simp
  from extract_rejects_other_suffix [OF h1 h2, of example_decoder example_world] h1 h2
  show ?thesis by simp
qed

text \<open>
  A path that exists is one that \<open>os.path.exists\<close> finds, a directory included: for a
  directory whose name ends with \<open>.zip\<close> the test of line 38 passes, and opening the
  archive raises \<open>IsADirectoryError\<close>.
\<close>

lemma directory_with_zip_suffix:
  "path_exists example_world ''/tmp/d.zip'' \<and>
   fst (extract example_decoder ''/tmp/d.zip'' None example_world) = Inl (OSError ''Is a directory'') \<and>
   fst (script example_decoder [''-l'', ''/tmp/d.zip''] example_world) = 1"
  by code_simp

text \<open>
  C3: for every path that ends with \<open>.zip\<close> and that does not exist (\<open>os.path.exists\<close> does
  not find it), \<open>extract\<close> raises \<open>FileNotFoundError\<close> and leaves the world as it was. The
  script prints the message to the error stream and exits with code 2.
\<close>

theorem extract_missing_source:
  assumes "endswith zip_path ''.zip''"
    and "\<not> path_exists w zip_path"
    and "parse_args build_parser argv = Args zip_path output_dir"
  shows "extract dec zip_path output_dir w =
           (Inl (FileNotFoundError (''Zip file not found: '' @ zip_path)), w) \<and>
         script dec argv w =
           (2, \<lparr>env = w, stdout = [], stderr = [Text (''Zip file not found: '' @ zip_path)]\<rparr>)"
proof -
  have e: "extract dec zip_path output_dir w =
             (Inl (FileNotFoundError (''Zip file not found: '' @ zip_path)), w)"
    using assms(1,2) by (simp add: extract_def)
  from script_FileNotFoundError [OF assms(3) e] e show ?thesis by simp
qed

theorem extract_missing_source_witness:
  "endswith ''/tmp/nothing.zip'' ''.zip'' \<and>
   \<not> path_exists example_world ''/tmp/nothing.zip'' \<and>
   parse_args build_parser [''--zippedfile'', ''/tmp/nothing.zip''] = Args ''/tmp/nothing.zip'' None \<and>
   extract example_decoder ''/tmp/nothing.zip'' None example_world =
     (Inl (FileNotFoundError ''Zip file not found: /tmp/nothing.zip''), example_world) \<and>
   script example_decoder [''--zippedfile'', ''/tmp/nothing.zip''] example_world =
     (2, \<lparr>env = example_world, stdout = [],
          stderr = [Text ''Zip file not found: /tmp/nothing.zip'']\<rparr>)"
proof -
  have h1: "endswith ''/tmp/nothing.zip'' ''.zip''" by (simp add: endswith_def)
  have h2: "\<not> path_exists example_world ''/tmp/nothing.zip''" by code_simp
  have h3: "parse_args build_parser [''--zippedfile'', ''/tmp/nothing.zip''] =
              Args ''/tmp/nothing.zip'' None" by code_simp
  from extract_missing_source [OF h1 h2 h3, of example_decoder] h1 h2 h3
  show ?thesis by simp
qed

text \<open>
  C9: the suffix is checked before the existence. For every path that neither ends with
  \<open>.zip\<close> nor exists, \<open>extract\<close> raises \<open>ValueError\<close> and not \<open>FileNotFoundError\<close>, and the exit
  code is 3 and not 2.
\<close>

theorem suffix_checked_before_existence:
  assumes "\<not> endswith zip_path ''.zip''"
    and "\<not> path_exists w zip_path"
    and "parse_args build_parser argv = Args zip_path output_dir"
  shows "fst (extract dec zip_path output_dir w) = Inl (ValueError (''Not a zip file: '' @ zip_path)) \<and>
         fst (extract dec zip_path output_dir w) \<noteq>
           Inl (FileNotFoundError (''Zip file not found: '' @ zip_path)) \<and>
         fst (script dec argv w) = 3 \<and> fst (script dec argv w) \<noteq> 2"
proof -
  have e: "extract dec zip_path output_dir w = (Inl (ValueError (''Not a zip file: '' @ zip_path)), w)"
    using assms(1) by (simp add: extract_def)
  from script_ValueError [OF assms(3) e] e show ?thesis by simp
qed

theorem suffix_checked_before_existence_witness:
  "\<not> endswith ''/tmp/nothing.txt'' ''.zip'' \<and>
   \<not> path_exists example_world ''/tmp/nothing.txt'' \<and>
   parse_args build_parser [''-l'', ''/tmp/nothing.txt''] = Args ''/tmp/nothing.txt'' None \<and>
   fst (extract example_decoder ''/tmp/nothing.txt'' None example_world) =
     Inl (ValueError ''Not a zip file: /tmp/nothing.txt'') \<and>
   fst (script example_decoder [''-l'', ''/tmp/nothing.txt''] example_world) = 3"
proof -
  have h1: "\<not> endswith ''/tmp/nothing.txt'' ''.zip''" by (simp add: endswith_def)
  have h2: "\<not> path_exists example_world ''/tmp/nothing.txt''" by code_simp
  have h3: "parse_args build_parser [''-l'', ''/tmp/nothing.txt''] = Args ''/tmp/nothing.txt'' None"
    by code_simp
  from suffix_checked_before_existence [OF h1 h2 h3, of example_decoder] h1 h2 h3
  show ?thesis by simp
qed

lemma endswith_append_same_length:
  "length suf = length t \<Longrightarrow> endswith (stem @ suf) t \<longleftrightarrow> suf = t"
  by (simp add: endswith_def)

text \<open>
  C10: the suffix check is case-sensitive. For every path whose last four characters are
  \<open>.zip\<close> in another casing (\<open>.ZIP\<close>, \<open>.Zip\<close>, ...), even when the path names an existing
  valid archive, \<open>extract\<close> raises \<open>ValueError\<close> and extracts nothing.
\<close>

theorem suffix_check_is_case_sensitive:
  assumes "map ascii_lower suf = ''.zip''"
    and "suf \<noteq> ''.zip''"
    and "stat w (stem @ suf) = Some (File b)"
    and "dec b = Inr filelist"
    and "parse_args build_parser argv = Args (stem @ suf) output_dir"
  shows "extract dec (stem @ suf) output_dir w =
           (Inl (ValueError (''Not a zip file: '' @ stem @ suf)), w) \<and>
         fst (script dec argv w) = 3"
proof -
  from assms(1) have "length suf = length ''.zip''"
    by (metis length_map)
  with assms(2) have "\<not> endswith (stem @ suf) ''.zip''"
    using endswith_append_same_length [of suf "''.zip''" stem] by blast
  then have e: "extract dec (stem @ suf) output_dir w =
                  (Inl (ValueError (''Not a zip file: '' @ stem @ suf)), w)"
    by (simp add: extract_def)
  from script_ValueError [OF assms(5) e] e show ?thesis by simp
qed

theorem suffix_check_is_case_sensitive_witness:
  "map ascii_lower ''.ZIP'' = ''.zip'' \<and> ''.ZIP'' \<noteq> ''.zip'' \<and>
   stat example_world (''/tmp/FOO'' @ ''.ZIP'') = Some (File example_archive) \<and>
   example_decoder example_archive = Inr example_entries \<and>
   parse_args build_parser [''-l'', ''/tmp/FOO.ZIP''] = Args (''/tmp/FOO'' @ ''.ZIP'') None \<and>
   extract example_decoder (''/tmp/FOO'' @ ''.ZIP'') None example_world =
     (Inl (ValueError (''Not a zip file: '' @ ''/tmp/FOO'' @ ''.ZIP'')), example_world) \<and>
   fst (script example_decoder [''-l'', ''/tmp/FOO.ZIP''] example_world) = 3"
proof -
  have h1: "map ascii_lower ''.ZIP'' = ''.zip''" by code_simp
  have h2: "''.ZIP'' \<noteq> ''.zip''" by simp
  have h3: "stat example_world (''/tmp/FOO'' @ ''.ZIP'') = Some (File example_archive)" by code_simp
  have h4: "example_decoder example_archive = Inr example_entries" by (simp add: example_decoder_def)
  have h5: "parse_args build_parser [''-l'', ''/tmp/FOO.ZIP''] = Args (''/tmp/FOO'' @ ''.ZIP'') None"
    by code_simp
  from suffix_check_is_case_sensitive
         [where suf = "''.ZIP''" and stem = "''/tmp/FOO''" and dec = example_decoder, OF h1 h2 h3 h4 h5]
       h1 h2 h3 h4 h5
  show ?thesis by blast
qed

section \<open>Malformed arguments\<close>

text \<open>
  An argument list without any option string lacks the required \<open>-l\<close>: every argument is
  a plain word for \<open>parse_args\<close>.
\<close>

lemma arg_patterns_plain:
  "\<forall>a\<in>set argv. a = [] \<or> hd a \<noteq> CHR ''-'' \<Longrightarrow>
   arg_patterns build_parser argv = Inr (map (\<lambda>a. PatA) argv)"
proof (induction argv)
  case Nil
  then show ?case by simp
next
  case (Cons a argv)
  then have a: "a = [] \<or> hd a \<noteq> CHR ''-''" by simp
  then have "a \<noteq> ''--''" by auto
  moreover from a have "parse_optional build_parser a = Inr None"
    by (auto simp: parse_optional_def)
  ultimately show ?case using Cons by simp
qed

text \<open>
  More generally, an argument list made of plain words and of the option strings \<open>-o\<close> and
  \<open>--output\<close> never sets the required \<open>zippedfile\<close>: \<open>parse_args\<close> reports that it is
  missing, unless it reports before that an \<open>-o\<close> is not followed by its argument.
\<close>

lemma parse_optional_plain:
  "a = [] \<or> hd a \<noteq> CHR ''-'' \<Longrightarrow> parse_optional build_parser a = Inr None"
  by (auto simp: parse_optional_def)

lemma parse_optional_output:
  "a = ''-o'' \<or> a = ''--output'' \<Longrightarrow>
   parse_optional build_parser a = Inr (Some (OptionTuple (Some (StoreAction Output)) a None None))"
  by (auto simp: parse_optional_def build_parser_def)

lemma arg_patterns_without_source:
  "\<forall>a\<in>set argv. a = [] \<or> hd a \<noteq> CHR ''-'' \<or> a = ''-o'' \<or> a = ''--output'' \<Longrightarrow>
   \<exists>ps. arg_patterns build_parser argv = Inr ps \<and> length ps = length argv \<and>
        (\<forall>pat\<in>set ps. pat = PatA \<or>
           (\<exists>os. pat = PatO (OptionTuple (Some (StoreAction Output)) os None None)))"
proof (induction argv)
  case Nil
  then show ?case by simp
next
  case (Cons a argv)
  then obtain ps where ps: "arg_patterns build_parser argv = Inr ps" "length ps = length argv"
    "\<forall>pat\<in>set ps. pat = PatA \<or>
       (\<exists>os. pat = PatO (OptionTuple (Some (StoreAction Output)) os None None))"
    by auto
  from Cons.prems have a: "a = [] \<or> hd a \<noteq> CHR ''-'' \<or> a = ''-o'' \<or> a = ''--output''" by simp
  then have d: "a \<noteq> ''--''" by auto
  show ?case
  proof (cases "a = ''-o'' \<or> a = ''--output''")
    case True
    from parse_optional_output [OF True] d ps show ?thesis by simp
  next
    case False
    with a have "a = [] \<or> hd a \<noteq> CHR ''-''" by simp
    from parse_optional_plain [OF this] d ps show ?thesis by simp
  qed
qed

lemma consume_args_without_source:
  "\<forall>(s, pat)\<in>set args. pat = PatA \<or>
      (\<exists>os. pat = PatO (OptionTuple (Some (StoreAction Output)) os None None)) \<Longrightarrow>
   ns_zippedfile ns = None \<Longrightarrow>
   consume_args build_parser args ns extras = UsageError (RequiredMissing [Zippedfile]) \<or>
   consume_args build_parser args ns extras = UsageError (ExpectedOneArgument (StoreAction Output))"
proof (induction "length args" arbitrary: args ns extras rule: less_induct)
  case less
  show ?case
  proof (cases args)
    case Nil
    with less.prems show ?thesis by (simp add: finish_def build_parser_def)
  next
    case (Cons x rest)
    obtain s pat where x: "x = (s, pat)" by (cases x)
    from less.prems(1) Cons x have rest: "\<forall>(s, pat)\<in>set rest. pat = PatA \<or>
      (\<exists>os. pat = PatO (OptionTuple (Some (StoreAction Output)) os None None))"
      and pat: "pat = PatA \<or> (\<exists>os. pat = PatO (OptionTuple (Some (StoreAction Output)) os None None))"
      by auto
    from pat show ?thesis
    proof
      assume "pat = PatA"
      with Cons x have "consume_args build_parser args ns extras =
                        consume_args build_parser rest ns (extras @ [s])" by simp
      moreover from Cons have "length rest < length args" by simp
      ultimately show ?thesis using less.hyps [OF _ rest less.prems(2)] by simp
    next
      assume "\<exists>os. pat = PatO (OptionTuple (Some (StoreAction Output)) os None None)"
      then obtain os where os: "pat = PatO (OptionTuple (Some (StoreAction Output)) os None None)" ..
      show ?thesis
      proof (cases "\<exists>s' rest'. rest = (s', PatA) # rest'")
        case True
        then obtain s' rest' where r: "rest = (s', PatA) # rest'" by blast
        then have c: "consume_optional build_parser rest (StoreAction Output) os None None [] =
                   Inr ([(StoreAction Output, [s'])], 1, [])"
          by (simp add: consume_optional.simps)
        let ?ns = "ns\<lparr>ns_output := Some s'\<rparr>"
        from c Cons x os r have "consume_args build_parser args ns extras =
                        consume_args build_parser rest' ?ns extras" by simp
        moreover from Cons r have "length rest' < length args" by simp
        moreover from rest r have "\<forall>(s, pat)\<in>set rest'. pat = PatA \<or>
            (\<exists>os. pat = PatO (OptionTuple (Some (StoreAction Output)) os None None))" by simp
        moreover from less.prems(2) have "ns_zippedfile ?ns = None" by simp
        ultimately show ?thesis using less.hyps [of rest' ?ns extras] by simp
      next
        case False
        then have "consume_optional build_parser rest (StoreAction Output) os None None [] =
                   Inl (ExpectedOneArgument (StoreAction Output))"
          by (auto simp: consume_optional.simps split: list.splits prod.splits arg_pattern.splits)
        with Cons x os show ?thesis by simp
      qed
    qed
  qed
qed

lemma parse_args_without_source:
  assumes "\<forall>a\<in>set argv. a = [] \<or> hd a \<noteq> CHR ''-'' \<or> a = ''-o'' \<or> a = ''--output''"
  shows "parse_args build_parser argv = UsageError (RequiredMissing [Zippedfile]) \<or>
         parse_args build_parser argv = UsageError (ExpectedOneArgument (StoreAction Output))"
proof -
  from arg_patterns_without_source [OF assms] obtain ps
    where ps: "arg_patterns build_parser argv = Inr ps" "length ps = length argv"
      "\<forall>pat\<in>set ps. pat = PatA \<or>
         (\<exists>os. pat = PatO (OptionTuple (Some (StoreAction Output)) os None None))"
    by blast
  from ps(3) have "\<forall>(s, pat)\<in>set (zip argv ps). pat = PatA \<or>
         (\<exists>os. pat = PatO (OptionTuple (Some (StoreAction Output)) os None None))"
    by (auto dest: set_zip_rightD)
  from consume_args_without_source [OF this, of "\<lparr>ns_zippedfile = None, ns_output = None\<rparr>" "[]"] ps(1)
  show ?thesis by (simp add: parse_args_def)
qed

text \<open>
  C6, as stated, fails: with no arguments at all the required option is missing, and the
  process exits with code 2, the status that \<open>parser.error\<close> passes to \<open>exit\<close>, not with
  code 3. Code 3 is the code of a wrong extension.
\<close>

theorem missing_option_exits_2:
  "parse_args build_parser [] = UsageError (RequiredMissing [Zippedfile]) \<and>
   fst (script example_decoder [] example_world) = 2 \<and>
   fst (script example_decoder [] example_world) \<noteq> 3 \<and>
   parse_args build_parser [''-l'', ''notes.txt''] = Args ''notes.txt'' None \<and>
   fst (script example_decoder [''-l'', ''notes.txt''] example_world) = 3"
  by code_simp

text \<open>
  C6, amended: for every invocation whose arguments \<open>argparse\<close> rejects (for example,
  every invocation made of plain words and \<open>-o\<close> options only, where the required
  source-archive option is missing), the process exits with code 2 after the usage text
  and the error message on the error stream, with nothing on standard output and the world
  untouched. This is not the code used for a wrong extension, which is 3.
\<close>

theorem usage_error_exits_2:
  "(\<forall>err. parse_args build_parser argv = UsageError err \<longrightarrow>
      script dec argv w =
        (2, \<lparr>env = w, stdout = [], stderr = [ArgparseUsage, ArgparseError err]\<rparr>)) \<and>
   ((\<forall>a\<in>set argv. a = [] \<or> hd a \<noteq> CHR ''-'' \<or> a = ''-o'' \<or> a = ''--output'') \<longrightarrow>
      parse_args build_parser argv = UsageError (RequiredMissing [Zippedfile]) \<or>
      parse_args build_parser argv = UsageError (ExpectedOneArgument (StoreAction Output))) \<and>
   (\<forall>zip_path output_dir.
      parse_args build_parser argv = Args zip_path output_dir \<and> \<not> endswith zip_path ''.zip'' \<longrightarrow>
      fst (script dec argv w) = 3)"
proof (intro conjI allI impI)
  fix err
  assume "parse_args build_parser argv = UsageError err"
  then show "script dec argv w =
        (2, \<lparr>env = w, stdout = [], stderr = [ArgparseUsage, ArgparseError err]\<rparr>)"
    by (rule script_usage_error)
next
  assume "\<forall>a\<in>set argv. a = [] \<or> hd a \<noteq> CHR ''-'' \<or> a = ''-o'' \<or> a = ''--output''"
  then show "parse_args build_parser argv = UsageError (RequiredMissing [Zippedfile]) \<or>
      parse_args build_parser argv = UsageError (ExpectedOneArgument (StoreAction Output))"
    by (rule parse_args_without_source)
next
  fix zip_path output_dir
  assume a: "parse_args build_parser argv = Args zip_path output_dir \<and> \<not> endswith zip_path ''.zip''"
  then have e: "extract dec zip_path output_dir w = (Inl (ValueError (''Not a zip file: '' @ zip_path)), w)"
    by (simp add: extract_def)
  from a have "parse_args build_parser argv = Args zip_path output_dir" ..
  from script_ValueError [OF this e] show "fst (script dec argv w) = 3" by simp
qed

theorem usage_error_exits_2_witness:
  "parse_args build_parser [''-o'', ''out'', ''/tmp/foo.zip''] = UsageError (RequiredMissing [Zippedfile]) \<and>
   script example_decoder [''-o'', ''out'', ''/tmp/foo.zip''] example_world =
     (2, \<lparr>env = example_world, stdout = [],
          stderr = [ArgparseUsage, ArgparseError (RequiredMissing [Zippedfile])]\<rparr>)"
proof -
  have h: "parse_args build_parser [''-o'', ''out'', ''/tmp/foo.zip''] =
             UsageError (RequiredMissing [Zippedfile])" by code_simp
  from usage_error_exits_2 [of "[''-o'', ''out'', ''/tmp/foo.zip'']" example_decoder example_world] h
  show ?thesis by blast
qed

section \<open>What is written where\<close>

text \<open>
  C8, as stated, fails. First, \<open>-h\<close> ends the run with exit code 0 and the help text on
  standard output, and the line \<open>Extracted successfully.\<close> is not written. Second, a
  failure message repeats the path it was given: for a path with a line feed in it, the
  one \<open>print\<close> call of the validation failure writes two lines.
\<close>

theorem help_exits_0_without_success_line:
  "fst (script example_decoder [''-h''] example_world) = 0 \<and>
   stdout (snd (script example_decoder [''-h''] example_world)) = [ArgparseHelp] \<and>
   stdout (snd (script example_decoder [''-h''] example_world)) \<noteq>
     [Text ''Extracted successfully.''] \<and>
   parse_args build_parser [''-l'', [CHR ''a'', CHR 0x0A, CHR ''b'']] =
     Args [CHR ''a'', CHR 0x0A, CHR ''b''] None \<and>
   fst (script example_decoder [''-l'', [CHR ''a'', CHR 0x0A, CHR ''b'']] example_world) = 3 \<and>
   stderr (snd (script example_decoder [''-l'', [CHR ''a'', CHR 0x0A, CHR ''b'']] example_world)) =
     [Text (''Not a zip file: '' @ [CHR ''a'', CHR 0x0A, CHR ''b''])] \<and>
   print_lines (''Not a zip file: '' @ [CHR ''a'', CHR 0x0A, CHR ''b'']) = 2"
  by code_simp

lemma print_lines_one: "print_lines s = Suc 0 \<longleftrightarrow> CHR 0x0A \<notin> set s"
  by (auto simp: print_lines_def filter_empty_conv)

text \<open>
  C8, amended: for every invocation other than a request for help, standard output holds
  the one line \<open>Extracted successfully.\<close> if and only if the exit code is 0; then nothing
  is on the error stream, and otherwise nothing is on standard output. When the arguments
  parse to a source path and an optional output directory, the exit code is 0 if and only
  if \<open>extract\<close> returned, and each of the three failure categories writes exactly one
  message to the error stream, by one \<open>print\<close> call: the message of the
  \<open>FileNotFoundError\<close> (code 2), of the \<open>ValueError\<close> (code 3), or \<open>Invalid zip file:\<close>
  with the message of the \<open>BadZipFile\<close> (code 4). The message is one line exactly when it
  holds no line feed; the messages of lines 36 and 39 end with the path as it was given.
\<close>

theorem success_line_iff_exit_0:
  assumes "parse_args build_parser argv \<noteq> HelpExit"
  shows "(stdout (snd (script dec argv w)) = [Text ''Extracted successfully.''] \<longleftrightarrow>
            fst (script dec argv w) = 0) \<and>
         (fst (script dec argv w) = 0 \<longrightarrow> stderr (snd (script dec argv w)) = []) \<and>
         (fst (script dec argv w) \<noteq> 0 \<longrightarrow> stdout (snd (script dec argv w)) = []) \<and>
         (\<forall>zip_path output_dir. parse_args build_parser argv = Args zip_path output_dir \<longrightarrow>
            (fst (script dec argv w) = 0 \<longleftrightarrow> fst (extract dec zip_path output_dir w) = Inr ()) \<and>
            (\<forall>msg. fst (extract dec zip_path output_dir w) = Inl (FileNotFoundError msg) \<longrightarrow>
               fst (script dec argv w) = 2 \<and> stderr (snd (script dec argv w)) = [Text msg]) \<and>
            (\<forall>msg. fst (extract dec zip_path output_dir w) = Inl (ValueError msg) \<longrightarrow>
               fst (script dec argv w) = 3 \<and> stderr (snd (script dec argv w)) = [Text msg]) \<and>
            (\<forall>msg. fst (extract dec zip_path output_dir w) = Inl (BadZipFile msg) \<longrightarrow>
               fst (script dec argv w) = 4 \<and>
               stderr (snd (script dec argv w)) = [Text (''Invalid zip file: '' @ msg)]) \<and>
            (\<not> endswith zip_path ''.zip'' \<longrightarrow>
               stderr (snd (script dec argv w)) = [Text (''Not a zip file: '' @ zip_path)]) \<and>
            (endswith zip_path ''.zip'' \<and> \<not> path_exists w zip_path \<longrightarrow>
               stderr (snd (script dec argv w)) = [Text (''Zip file not found: '' @ zip_path)])) \<and>
         (\<forall>msg. stderr (snd (script dec argv w)) = [Text msg] \<longrightarrow>
            (print_lines msg = 1 \<longleftrightarrow> CHR 0x0A \<notin> set msg))"
proof (cases "parse_args build_parser argv")
  case (Args zip_path output_dir)
  obtain r w' where e: "extract dec zip_path output_dir w = (r, w')"
    by (cases "extract dec zip_path output_dir w")
  have v: "r = Inl (ValueError (''Not a zip file: '' @ zip_path))" if "\<not> endswith zip_path ''.zip''"
    using that e by (simp add: extract_def)
  have f: "r = Inl (FileNotFoundError (''Zip file not found: '' @ zip_path))"
    if "endswith zip_path ''.zip''" "\<not> path_exists w zip_path"
    using that e by (simp add: extract_def)
  show ?thesis
  proof (cases r)
    case (Inl x)
    with Args e v f show ?thesis
      by (cases x) (auto simp: script_def main_def print_lines_one)
  next
    case (Inr u)
    with Args e v f show ?thesis
      by (auto simp: script_def main_def print_lines_one)
  qed
next
  case HelpExit
  with assms show ?thesis by simp
next
  case (UsageError err)
  from script_usage_error [OF this, of dec w] UsageError show ?thesis
    by (simp add: print_lines_one)
qed

theorem success_line_iff_exit_0_witness:
  "parse_args build_parser [''-l'', ''/tmp/foo.zip''] = Args ''/tmp/foo.zip'' None \<and>
   fst (extract example_decoder ''/tmp/foo.zip'' None example_world) = Inr () \<and>
   fst (script example_decoder [''-l'', ''/tmp/foo.zip''] example_world) = 0 \<and>
   stdout (snd (script example_decoder [''-l'', ''/tmp/foo.zip''] example_world)) =
     [Text ''Extracted successfully.''] \<and>
   stderr (snd (script example_decoder [''-l'', ''/tmp/foo.zip''] example_world)) = []"
proof -
  have h1: "parse_args build_parser [''-l'', ''/tmp/foo.zip''] = Args ''/tmp/foo.zip'' None"
    by code_simp
  then have h0: "parse_args build_parser [''-l'', ''/tmp/foo.zip''] \<noteq> HelpExit" by simp
  have h2: "fst (extract example_decoder ''/tmp/foo.zip'' None example_world) = Inr ()"
    by code_simp
  from success_line_iff_exit_0 [OF h0, of example_decoder example_world] h1 h2
  show ?thesis by simp
qed

section \<open>The default output directory\<close>

text \<open>
  Without \<open>output_dir\<close>, \<open>extract\<close> works in the directory named by joining the working
  directory and the root that \<open>splitext\<close> returns for the base name.
\<close>

lemma extract_default_directory:
  "extract dec zip_path None w = extract dec zip_path (Some (destination w zip_path None)) w"
  by (simp add: extract_def destination_def)

text \<open>
  \<open>basename\<close> returns what follows the last slash, and \<open>splitext\<close> cuts a name without
  slashes at its last dot, unless only dots come before it.
\<close>

lemma rfind_absent: "c \<notin> set s \<Longrightarrow> rfind s c = - 1"
  by (simp add: rfind_def)

lemma takeWhile_upto:
  "c \<notin> set as \<Longrightarrow> takeWhile (\<lambda>x. x \<noteq> c) (as @ c # bs) = as"
  by (induction as) auto

lemma rfind_last_occurrence: "c \<notin> set ys \<Longrightarrow> rfind (xs @ c # ys) c = int (length xs)"
proof -
  assume a: "c \<notin> set ys"
  then have "takeWhile (\<lambda>x. x \<noteq> c) (rev ys @ c # rev xs) = rev ys"
    by (intro takeWhile_upto) simp
  then show ?thesis by (simp add: rfind_def)
qed

lemma basename_spec: "basename p = spec_strip_directory p"
proof (cases "sep \<in> set p")
  case False
  then have t: "takeWhile (\<lambda>c. c \<noteq> CHR ''/'') (rev p) = rev p"
    by (auto simp: sep_def)
  show ?thesis
    unfolding spec_strip_directory_def t using False by (simp add: basename_def rfind_absent)
next
  case True
  then obtain xs ys where p: "p = xs @ sep # ys" and ys: "sep \<notin> set ys"
    by (auto dest: split_list_last)
  from ys have "rfind (xs @ sep # ys) sep = int (length xs)" by (rule rfind_last_occurrence)
  with p have b: "basename p = ys" by (simp add: basename_def nat_add_distrib)
  from ys have "takeWhile (\<lambda>x. x \<noteq> sep) (rev ys @ sep # rev xs) = rev ys"
    by (intro takeWhile_upto) simp
  with p have "spec_strip_directory p = ys"
    by (simp add: spec_strip_directory_def sep_def)
  with b show ?thesis by simp
qed

lemma basename_no_sep: "sep \<notin> set (basename p)"
proof -
  have "set (takeWhile (\<lambda>c. c \<noteq> CHR ''/'') (rev p)) \<subseteq> {c. c \<noteq> CHR ''/''}"
    by (auto dest: set_takeWhileD)
  then show ?thesis by (auto simp: basename_spec spec_strip_directory_def sep_def)
qed

lemma splitext_loop_found:
  "i \<le> k \<Longrightarrow> k < n \<Longrightarrow> k < length p \<Longrightarrow> p ! k \<noteq> extsep \<Longrightarrow>
   splitext_loop p i n = (take n p, drop n p)"
proof (induction p i n rule: splitext_loop.induct)
  case (1 p i n)
  show ?case
  proof (cases "take 1 (drop i p) \<noteq> [extsep]")
    case True
    with 1 show ?thesis by (simp add: splitext_loop.simps [of p i n])
  next
    case False
    then have "p ! i = extsep"
      by (metis "1.prems"(1,3) Cons_nth_drop_Suc le_less_trans list.inject take_Suc_Cons One_nat_def)
    with 1 have "i \<noteq> k" by auto
    with 1 have "Suc i \<le> k" by simp
    with 1 False show ?thesis
      by (simp add: splitext_loop.simps [of p i n])
  qed
qed

lemma splitext_loop_dots:
  "n \<le> length p \<Longrightarrow> (\<forall>k. i \<le> k \<and> k < n \<longrightarrow> p ! k = extsep) \<Longrightarrow> splitext_loop p i n = (p, [])"
proof (induction p i n rule: splitext_loop.induct)
  case (1 p i n)
  show ?case
  proof (cases "i < n")
    case False
    then show ?thesis by (simp add: splitext_loop.simps [of p i n])
  next
    case True
    with 1 have "p ! i = extsep" by simp
    moreover from True 1 have "i < length p" by simp
    ultimately have t: "take 1 (drop i p) = [extsep]"
      by (simp add: take_Suc_conv_app_nth Cons_nth_drop_Suc [symmetric])
    with True 1 show ?thesis
      by (simp add: splitext_loop.simps [of p i n])
  qed
qed

lemma splitext_spec:
  assumes "sep \<notin> set name"
  shows "fst (splitext name) = spec_strip_extension name"
proof (cases "extsep \<in> set name")
  case False
  then have "CHR ''.'' \<notin> set (dropWhile (\<lambda>c. c = CHR ''.'') name)"
    by (auto simp: extsep_def dest: set_dropWhileD)
  moreover from False assms have "splitext name = (name, [])"
    by (simp add: splitext_def rfind_absent)
  ultimately show ?thesis by (simp add: spec_strip_extension_def Let_def)
next
  case True
  then obtain xs ys where n: "name = xs @ extsep # ys" and ys: "extsep \<notin> set ys"
    by (auto dest: split_list_last)
  have s: "rfind name sep = - 1" using assms by (rule rfind_absent)
  have d: "rfind name extsep = int (length xs)"
    unfolding n using ys by (rule rfind_last_occurrence)
  from s d have sp: "splitext name = splitext_loop name 0 (length xs)"
    by (simp add: splitext_def)
  show ?thesis
  proof (cases "\<forall>c\<in>set xs. c = extsep")
    case True
    then have "\<forall>k. 0 \<le> k \<and> k < length xs \<longrightarrow> name ! k = extsep"
      by (simp add: n nth_append)
    then have "splitext_loop name 0 (length xs) = (name, [])"
      by (intro splitext_loop_dots) (simp_all add: n)
    moreover have "takeWhile (\<lambda>c. c = CHR ''.'') name = xs @ [extsep] @ takeWhile (\<lambda>c. c = CHR ''.'') ys"
      using True by (simp add: n extsep_def takeWhile_append2)
    moreover have "dropWhile (\<lambda>c. c = CHR ''.'') name = dropWhile (\<lambda>c. c = CHR ''.'') ys"
      using True by (simp add: n extsep_def dropWhile_append2)
    moreover have "CHR ''.'' \<notin> set (dropWhile (\<lambda>c. c = CHR ''.'') ys)"
      using ys by (auto simp: extsep_def dest: set_dropWhileD)
    ultimately show ?thesis using sp by (simp add: spec_strip_extension_def Let_def)
  next
    case False
    then obtain k where k: "k < length xs" "xs ! k \<noteq> extsep"
      by (metis in_set_conv_nth)
    have "splitext_loop name 0 (length xs) = (take (length xs) name, drop (length xs) name)"
      using k by (intro splitext_loop_found [where k = k]) (simp_all add: n nth_append)
    with sp have f: "fst (splitext name) = xs" by (simp add: n)
    let ?d = "takeWhile (\<lambda>c. c = CHR ''.'') xs"
    let ?r = "dropWhile (\<lambda>c. c = CHR ''.'') xs"
    from False have r: "?r \<noteq> []" by (auto simp: extsep_def)
    then obtain x where x: "x \<in> set xs" "\<not> x = CHR ''.''"
      by (auto simp: dropWhile_eq_Nil_conv)
    have tw: "takeWhile (\<lambda>c. c = CHR ''.'') name = ?d"
      unfolding n using x by (rule takeWhile_append1)
    have dw: "dropWhile (\<lambda>c. c = CHR ''.'') name = ?r @ extsep # ys"
      unfolding n using x by (rule dropWhile_append1)
    have "takeWhile (\<lambda>x. x \<noteq> extsep) (rev ys @ extsep # rev ?r) = rev ys"
      using ys by (intro takeWhile_upto) simp
    moreover have "dropWhile (\<lambda>x. x \<noteq> extsep) (rev ys @ extsep # rev ?r) = extsep # rev ?r"
      using ys by (simp add: dropWhile_append)
    ultimately have "spec_strip_extension name = ?d @ ?r"
      by (simp add: spec_strip_extension_def Let_def tw dw extsep_def)
    with f show ?thesis by simp
  qed
qed

lemma splitext_loop_take: "\<exists>k. fst (splitext_loop p i n) = take k p"
proof (induction p i n rule: splitext_loop.induct)
  case (1 p i n)
  show ?case
  proof (cases "i < n")
    case False
    then have "fst (splitext_loop p i n) = take (length p) p"
      by (simp add: splitext_loop.simps [of p i n])
    then show ?thesis ..
  next
    case True
    show ?thesis
    proof (cases "take 1 (drop i p) \<noteq> [extsep]")
      case t: True
      with True have "fst (splitext_loop p i n) = take n p"
        by (simp add: splitext_loop.simps [of p i n])
      then show ?thesis ..
    next
      case False
      with True 1 show ?thesis by (simp add: splitext_loop.simps [of p i n])
    qed
  qed
qed

lemma splitext_take: "\<exists>k. fst (splitext p) = take k p"
proof (cases "rfind p extsep > rfind p sep")
  case True
  then show ?thesis using splitext_loop_take by (simp add: splitext_def)
next
  case False
  then have "fst (splitext p) = take (length p) p" by (simp add: splitext_def)
  then show ?thesis ..
qed

lemma stem_no_sep: "sep \<notin> set (fst (splitext (basename p)))"
proof -
  obtain k where "fst (splitext (basename p)) = take k (basename p)"
    using splitext_take by blast
  with basename_no_sep [of p] show ?thesis by (auto dest: in_set_takeD)
qed

lemma path_join_spec: "sep \<notin> set name \<Longrightarrow> path_join dir name = spec_join dir name"
proof -
  assume a: "sep \<notin> set name"
  then have "\<not> startswith name [sep]"
    by (cases name) (auto simp: startswith_def)
  moreover have "endswith dir [sep] \<longleftrightarrow> dir \<noteq> [] \<and> last dir = sep"
  proof (cases dir rule: rev_cases)
    case Nil
    then show ?thesis by (simp add: endswith_def)
  next
    case (snoc ys y)
    then show ?thesis by (simp add: endswith_def)
  qed
  ultimately show ?thesis by (auto simp: path_join_def spec_join_def sep_def)
qed

lemma destination_spec:
  "destination w zip_path None = spec_default_destination (getcwd w) zip_path"
proof -
  have "fst (splitext (basename zip_path)) = spec_strip_extension (spec_strip_directory zip_path)"
    using splitext_spec [OF basename_no_sep] by (simp add: basename_spec)
  with path_join_spec [OF stem_no_sep, of "getcwd w" zip_path]
  show ?thesis by (simp add: destination_def spec_default_destination_def)
qed

text \<open>
  For a file name \<open>name.zip\<close> in any directory, where \<open>name\<close> has a character other than a
  dot, the name of the default directory is \<open>name\<close>. A file name that is dots followed by
  \<open>zip\<close> has no extension in the sense above: the archive \<open>/tmp/.zip\<close> is extracted to
  \<open>.zip\<close> under the working directory.
\<close>

lemma basename_append:
  "sep \<notin> set name \<Longrightarrow> dir = [] \<or> last dir = sep \<Longrightarrow> basename (dir @ name) = name"
proof (cases "dir = []")
  case True
  assume "sep \<notin> set name"
  with True show ?thesis by (simp add: basename_def rfind_absent)
next
  case False
  assume n: "sep \<notin> set name" and "dir = [] \<or> last dir = sep"
  with False obtain d where d: "dir = d @ [sep]"
    by (metis append_butlast_last_id)
  have "rfind (d @ sep # name) sep = int (length d)"
    using n by (rule rfind_last_occurrence)
  with d show ?thesis by (simp add: basename_def nat_add_distrib)
qed

lemma splitext_zip:
  assumes "sep \<notin> set name" and "\<exists>c\<in>set name. c \<noteq> extsep"
  shows "splitext (name @ ''.zip'') = (name, ''.zip'')"
proof -
  from assms(2) obtain k where k: "k < length name" "name ! k \<noteq> extsep"
    by (metis in_set_conv_nth)
  have s: "rfind (name @ ''.zip'') sep = - 1"
    using assms(1) by (simp add: rfind_absent sep_def)
  have "rfind (name @ extsep # ''zip'') extsep = int (length name)"
    by (rule rfind_last_occurrence) (simp add: extsep_def)
  then have d: "rfind (name @ ''.zip'') extsep = int (length name)"
    by (simp add: extsep_def)
  have "splitext_loop (name @ ''.zip'') 0 (length name) =
          (take (length name) (name @ ''.zip''), drop (length name) (name @ ''.zip''))"
    using k by (intro splitext_loop_found [where k = k]) (simp_all add: nth_append)
  with s d show ?thesis by (simp add: splitext_def)
qed

lemma default_directory_strips_zip:
  assumes "sep \<notin> set name" and "\<exists>c\<in>set name. c \<noteq> extsep"
    and "dir = [] \<or> last dir = sep"
  shows "fst (splitext (basename (dir @ name @ ''.zip''))) = name"
proof -
  have "sep \<notin> set (name @ ''.zip'')" using assms(1) by (simp add: sep_def)
  then have "basename (dir @ name @ ''.zip'') = name @ ''.zip''"
    using assms(3) by (rule basename_append)
  with splitext_zip [OF assms(1,2)] show ?thesis by simp
qed


lemma default_directory_of_dot_zip:
  "fst (splitext (basename ''/tmp/.zip'')) = ''.zip'' \<and>
   destination example_world ''/tmp/.zip'' None = ''/home/user/.zip'' \<and>
   fst (extract example_decoder ''/tmp/.zip'' None example_world) = Inr () \<and>
   files (snd (extract example_decoder ''/tmp/.zip'' None example_world))
     [''home'', ''user'', ''.zip'', ''a.txt''] = Some (File [0x61])"
  by code_simp

text \<open>
  C5: for every archive path, when \<open>output_dir\<close> is omitted the destination directory is
  the working directory joined with the archive's base name stripped of its directory
  components and of its extension, and \<open>extract\<close> does what it does when it is given that
  directory; for the source \<open>/tmp/foo.zip\<close> the destination is \<open>foo\<close> under the working
  directory.
\<close>

theorem default_output_directory:
  "destination w zip_path None = spec_default_destination (getcwd w) zip_path \<and>
   extract dec zip_path None w =
     extract dec zip_path (Some (spec_default_destination (getcwd w) zip_path)) w \<and>
   spec_default_destination (getcwd w) ''/tmp/foo.zip'' = spec_join (getcwd w) ''foo''"
proof -
  have "spec_strip_extension (spec_strip_directory ''/tmp/foo.zip'') = ''foo''" by code_simp
  then have "spec_default_destination (getcwd w) ''/tmp/foo.zip'' = spec_join (getcwd w) ''foo''"
    by (simp only: spec_default_destination_def)
  with destination_spec [of w zip_path] extract_default_directory [of dec zip_path w]
  show ?thesis by simp
qed

theorem default_output_directory_witness:
  "destination example_world ''/tmp/foo.zip'' None = ''/home/user/foo'' \<and>
   extract example_decoder ''/tmp/foo.zip'' None example_world =
     extract example_decoder ''/tmp/foo.zip'' (Some ''/home/user/foo'') example_world \<and>
   files (snd (extract example_decoder ''/tmp/foo.zip'' None example_world))
     [''home'', ''user'', ''foo'', ''a.txt''] = Some (File [0x61])"
proof -
  have d: "spec_default_destination (getcwd example_world) ''/tmp/foo.zip'' = ''/home/user/foo''"
    by code_simp
  have f: "files (snd (extract example_decoder ''/tmp/foo.zip'' None example_world))
             [''home'', ''user'', ''foo'', ''a.txt''] = Some (File [0x61])"
    by code_simp
  from default_output_directory [of example_world "''/tmp/foo.zip''" example_decoder] d f
  show ?thesis by simp
qed

section \<open>Creating directories and resolving paths\<close>

text \<open>
  \<open>makedirs\<close> only adds directories: what exists stays as it is, and on a file system that
  already has the directories the call changes nothing.
\<close>

lemma mkdirs_keeps:
  "mkdirs fs cur cs = (r, fs') \<Longrightarrow> fs p = Some x \<Longrightarrow> fs' p = Some x"
proof (induction cs arbitrary: fs cur)
  case Nil
  then show ?case by simp
next
  case (Cons c cs)
  consider (skip) "c = [] \<or> c = ''.''" | (up) "c = ''..''"
    | (name) "c \<noteq> []" "c \<noteq> ''.''" "c \<noteq> ''..''" by blast
  then show ?case
  proof cases
    case skip
    with Cons show ?thesis by simp
  next
    case up
    with Cons show ?thesis by simp
  next
    case name
    show ?thesis
    proof (cases "fs (cur @ [c])")
      case None
      with name Cons.prems have m: "mkdirs (fs(cur @ [c] \<mapsto> Dir)) (cur @ [c]) cs = (r, fs')"
        by simp
      from None Cons.prems(2) have "p \<noteq> cur @ [c]" by auto
      then have "(fs(cur @ [c] \<mapsto> Dir)) p = Some x" using Cons.prems(2) by simp
      with m show ?thesis by (rule Cons.IH)
    next
      case (Some n)
      show ?thesis
      proof (cases n)
        case Dir
        with Some name Cons.prems have "mkdirs fs (cur @ [c]) cs = (r, fs')"
          by simp
        then show ?thesis using Cons.prems(2) by (rule Cons.IH)
      next
        case (File b)
        with Some name Cons.prems show ?thesis by simp
      qed
    qed
  qed
qed


lemma mkdirs_noop:
  "mkdirs fs cur cs = (Inr (), fs') \<Longrightarrow> (\<And>p. fs' p = Some Dir \<Longrightarrow> G p = Some Dir) \<Longrightarrow>
   mkdirs G cur cs = (Inr (), G)"
proof (induction cs arbitrary: fs cur)
  case Nil
  then show ?case by simp
next
  case (Cons c cs)
  consider (skip) "c = [] \<or> c = ''.''" | (up) "c = ''..''"
    | (name) "c \<noteq> []" "c \<noteq> ''.''" "c \<noteq> ''..''" by blast
  then show ?case
  proof cases
    case skip
    with Cons.prems(1) have "mkdirs fs cur cs = (Inr (), fs')" by simp
    then have "mkdirs G cur cs = (Inr (), G)" using Cons.prems(2) by (rule Cons.IH)
    with skip show ?thesis by simp
  next
    case up
    with Cons.prems(1) have "mkdirs fs (butlast cur) cs = (Inr (), fs')" by simp
    then have "mkdirs G (butlast cur) cs = (Inr (), G)" using Cons.prems(2) by (rule Cons.IH)
    with up show ?thesis by simp
  next
    case name
    have goal: "mkdirs G cur (c # cs) = (Inr (), G)"
      if m: "mkdirs f (cur @ [c]) cs = (Inr (), fs')" and d: "f (cur @ [c]) = Some Dir" for f
    proof -
      from mkdirs_keeps [OF m d] have "G (cur @ [c]) = Some Dir" by (rule Cons.prems(2))
      moreover from m have "mkdirs G (cur @ [c]) cs = (Inr (), G)"
        using Cons.prems(2) by (rule Cons.IH)
      ultimately show ?thesis using name by simp
    qed
    show ?thesis
    proof (cases "fs (cur @ [c])")
      case None
      with name Cons.prems have "mkdirs (fs(cur @ [c] \<mapsto> Dir)) (cur @ [c]) cs = (Inr (), fs')"
        by simp
      then show ?thesis by (rule goal) simp
    next
      case (Some n)
      show ?thesis
      proof (cases n)
        case Dir
        with Some name Cons.prems have m: "mkdirs fs (cur @ [c]) cs = (Inr (), fs')"
          by simp
        from Some Dir have d: "fs (cur @ [c]) = Some Dir" by simp
        from goal [OF m d] show ?thesis .
      next
        case (File b)
        with Some name Cons.prems show ?thesis by simp
      qed
    qed
  qed
qed



lemma walk_mono:
  "walk fs cur cs = Some q \<Longrightarrow> (\<And>p. fs p = Some Dir \<Longrightarrow> G p = Some Dir) \<Longrightarrow>
   walk G cur cs = Some q"
proof (induction cs arbitrary: cur)
  case Nil
  then show ?case by simp
next
  case (Cons c cs)
  consider (skip) "c = [] \<or> c = ''.''" | (up) "c = ''..''"
    | (name) "c \<noteq> []" "c \<noteq> ''.''" "c \<noteq> ''..''" by blast
  then show ?case
  proof cases
    case skip
    with Cons show ?thesis by auto
  next
    case up
    with Cons show ?thesis by auto
  next
    case name
    show ?thesis
    proof (cases "cs = []")
      case True
      with name Cons.prems(1) show ?thesis by simp
    next
      case False
      with name Cons.prems(1) have d: "fs (cur @ [c]) = Some Dir"
        and w: "walk fs (cur @ [c]) cs = Some q"
        by (auto split: option.splits node.splits)
      from d have "G (cur @ [c]) = Some Dir" by (rule Cons.prems(2))
      moreover from w have "walk G (cur @ [c]) cs = Some q" using Cons.prems(2) by (rule Cons.IH)
      ultimately show ?thesis using name False by simp
    qed
  qed
qed

lemma stat_mono:
  assumes "stat w p = Some x"
    and "\<And>q y. files w q = Some y \<Longrightarrow> files w' q = Some y"
    and "cwd w' = cwd w"
  shows "stat w' p = Some x"
proof -
  from assms(1) obtain q where q: "walk (files w) (start_dir w p) (split_on sep p) = Some q"
    and x: "files w q = Some x" and p: "p \<noteq> []"
    by (auto simp: stat_def split: if_splits option.splits)
  have s: "start_dir w' p = start_dir w p" using assms(3) by (simp add: start_dir_def)
  from q have "walk (files w') (start_dir w p) (split_on sep p) = Some q"
    by (rule walk_mono) (rule assms(2))
  with s p assms(2) [OF x] show ?thesis by (simp add: stat_def)
qed

section \<open>Extracting one member\<close>

lemma kinds_le_refl: "kinds_le f f"
  by (simp add: kinds_le_def)

lemma kinds_le_trans: "kinds_le f g \<Longrightarrow> kinds_le g h \<Longrightarrow> kinds_le f h"
  unfolding kinds_le_def by metis

lemma kinds_le_Dir: "kinds_le f g \<Longrightarrow> f p = Some Dir \<Longrightarrow> g p = Some Dir"
  by (simp add: kinds_le_def)

lemma kinds_le_File: "kinds_le f g \<Longrightarrow> f p = Some (File b) \<Longrightarrow> \<exists>c. g p = Some (File c)"
  by (simp add: kinds_le_def)

lemma kinds_le_Some: "kinds_le f g \<Longrightarrow> f p = Some x \<Longrightarrow> g p \<noteq> None"
  by (cases x) (auto dest: kinds_le_Dir kinds_le_File)

lemma keeps_kinds_le: "(\<And>p x. f p = Some x \<Longrightarrow> g p = Some x) \<Longrightarrow> kinds_le f g"
  by (simp add: kinds_le_def)

lemma clean_arcname: "clean (arcname member)"
  by (simp add: clean_def arcname_def)

lemma clean_append: "clean (xs @ ys) \<longleftrightarrow> clean xs \<and> clean ys"
  by (auto simp: clean_def)


lemma clean_norm_comp: "clean st \<Longrightarrow> clean (norm_comp c st)"
  by (auto simp: norm_comp_def clean_def dest: in_set_butlastD)

lemma clean_fold_norm_comp: "clean st \<Longrightarrow> clean (fold norm_comp cs st)"
  by (induction cs arbitrary: st) (simp_all add: clean_norm_comp)

lemma clean_resolve: "clean (resolve w p)"
proof -
  have "clean []" by (simp add: clean_def)
  then have "clean (start_dir w p)"
    by (simp add: start_dir_def clean_fold_norm_comp)
  then show ?thesis by (simp add: resolve_def clean_fold_norm_comp)
qed

lemma extract_member_above:
  "extract_member fs D m =
     (case above fs (D @ arcname m) of
        (Inl e, fs1) \<Rightarrow> (Inl e, fs1)
      | (Inr u, fs1) \<Rightarrow>
          if is_dir m
          then (if fs1 (D @ arcname m) = Some Dir then (Inr (), fs1) else mkdir_at fs1 (D @ arcname m))
          else write_file fs1 (D @ arcname m) (data m))"
  by (simp add: extract_member_def above_def Let_def)

lemma above_keeps: "above fs t = (r, fs1) \<Longrightarrow> fs p = Some x \<Longrightarrow> fs1 p = Some x"
  by (auto simp: above_def split: if_splits dest: mkdirs_keeps)



lemma above_rerun:
  assumes a: "above fs t = (Inr (), fs1)" and le: "kinds_le fs1 G" and c: "clean t"
  shows "above G t = (Inr (), G)"
proof (cases "G (butlast t) = None")
  case False
  then show ?thesis by (auto simp: above_def)
next
  case True
  have "fs (butlast t) = None"
  proof (rule ccontr)
    assume "fs (butlast t) \<noteq> None"
    then obtain x where "fs (butlast t) = Some x" by blast
    from above_keeps [OF a this] have "fs1 (butlast t) = Some x" .
    from kinds_le_Some [OF le this] True show False by simp
  qed
  with a have "mkdirs fs [] (butlast t) = (Inr (), fs1)" by (simp add: above_def)
  then have "mkdirs G [] (butlast t) = (Inr (), G)"
    by (rule mkdirs_noop) (rule kinds_le_Dir [OF le])
  with True show ?thesis by (simp add: above_def)
qed

lemma mkdir_at_keeps: "mkdir_at fs t = (r, fs') \<Longrightarrow> fs p = Some x \<Longrightarrow> fs' p = Some x"
  by (auto simp: mkdir_at_def split: if_splits option.splits node.splits)


lemma mkdir_at_ok: "mkdir_at fs t = (Inr (), fs') \<Longrightarrow> fs' t = Some Dir"
  by (auto simp: mkdir_at_def split: if_splits option.splits node.splits)

lemma write_file_keeps:
  "write_file fs t b = (r, fs') \<Longrightarrow> fs p = Some x \<Longrightarrow> p \<noteq> t \<Longrightarrow> fs' p = Some x"
  by (auto simp: write_file_def split: if_splits option.splits node.splits)


lemma write_file_ok:
  "write_file fs t b = (Inr (), fs') \<longleftrightarrow>
   fs t \<noteq> Some Dir \<and> fs (butlast t) = Some Dir \<and> fs' = fs(t \<mapsto> File b)"
  by (auto simp: write_file_def split: if_splits option.splits node.splits)

lemma extract_member_keeps:
  assumes "extract_member fs D m = (r, fs')" and "fs p = Some x"
    and "is_dir m \<or> p \<noteq> D @ arcname m"
  shows "fs' p = Some x"
proof -
  obtain r1 fs1 where a: "above fs (D @ arcname m) = (r1, fs1)" by (cases "above fs (D @ arcname m)")
  from above_keeps [OF a assms(2)] have 1: "fs1 p = Some x" .
  show ?thesis
  proof (cases r1)
    case (Inl e)
    with a assms(1) 1 show ?thesis by (simp add: extract_member_above)
  next
    case (Inr u)
    show ?thesis
    proof (cases "is_dir m")
      case True
      with a Inr assms(1) 1 show ?thesis
        by (auto simp: extract_member_above split: if_splits dest: mkdir_at_keeps)
    next
      case False
      with assms(3) have "p \<noteq> D @ arcname m" by simp
      with False a Inr assms(1) 1 show ?thesis
        by (auto simp: extract_member_above dest: write_file_keeps)
    qed
  qed
qed


lemma extract_member_ok:
  assumes "extract_member fs D m = (Inr (), fs')"
  shows "fs' (D @ arcname m) = (if is_dir m then Some Dir else Some (File (data m)))"
proof -
  obtain r1 fs1 where a: "above fs (D @ arcname m) = (r1, fs1)" by (cases "above fs (D @ arcname m)")
  with assms show ?thesis
    by (cases r1)
       (auto simp: extract_member_above write_file_ok split: if_splits dest: mkdir_at_ok)
qed

lemma extract_member_kinds_le:
  assumes "extract_member fs D m = (Inr (), fs')"
  shows "kinds_le fs fs'"
  unfolding kinds_le_def
proof (intro allI conjI impI)
  fix p
  assume d: "fs p = Some Dir"
  show "fs' p = Some Dir"
  proof (cases "is_dir m \<or> p \<noteq> D @ arcname m")
    case True
    from extract_member_keeps [OF assms d True] show ?thesis .
  next
    case False
    then have nd: "\<not> is_dir m" and p: "p = D @ arcname m" by simp_all
    obtain r1 fs1 where a: "above fs (D @ arcname m) = (r1, fs1)"
      by (cases "above fs (D @ arcname m)")
    from above_keeps [OF a d] p have "fs1 (D @ arcname m) = Some Dir" by simp
    with a assms nd show ?thesis
      by (cases r1) (auto simp: extract_member_above write_file_ok)
  qed
next
  fix p b
  assume f: "fs p = Some (File b)"
  show "\<exists>c. fs' p = Some (File c)"
  proof (cases "is_dir m \<or> p \<noteq> D @ arcname m")
    case True
    from extract_member_keeps [OF assms f True] show ?thesis by simp
  next
    case False
    then have nd: "\<not> is_dir m" and p: "p = D @ arcname m" by simp_all
    from extract_member_ok [OF assms] nd p show ?thesis by simp
  qed
qed

lemma extract_member_rerun:
  assumes e: "extract_member fs D m = (Inr (), fs')" and le: "kinds_le fs' G" and c: "clean D"
  shows "extract_member G D m =
           (Inr (), if is_dir m then G else G(D @ arcname m \<mapsto> File (data m)))"
proof -
  let ?t = "D @ arcname m"
  have ct: "clean ?t" using c by (simp add: clean_append clean_arcname)
  obtain r1 fs1 where a: "above fs ?t = (r1, fs1)" by (cases "above fs ?t")
  with e have r1: "r1 = Inr ()" by (cases r1) (simp_all add: extract_member_above)
  show ?thesis
  proof (cases "is_dir m")
    case True
    with e a r1 have k1: "\<And>p x. fs1 p = Some x \<Longrightarrow> fs' p = Some x"
      by (auto simp: extract_member_above split: if_splits dest: mkdir_at_keeps)
    then have "kinds_le fs1 fs'" by (rule keeps_kinds_le)
    then have "kinds_le fs1 G" using le by (rule kinds_le_trans)
    with a r1 have aG: "above G ?t = (Inr (), G)" using ct by (auto intro: above_rerun)
    from extract_member_ok [OF e] True have "fs' ?t = Some Dir" by simp
    then have "G ?t = Some Dir" by (rule kinds_le_Dir [OF le])
    with aG True show ?thesis by (simp add: extract_member_above)
  next
    case False
    with e a r1 have w: "write_file fs1 ?t (data m) = (Inr (), fs')"
      by (simp add: extract_member_above)
    then have w1: "fs1 ?t \<noteq> Some Dir" and w2: "fs1 (butlast ?t) = Some Dir"
      and w3: "fs' = fs1(?t \<mapsto> File (data m))"
      by (simp_all add: write_file_ok)
    from w1 w2 have ne: "butlast ?t \<noteq> ?t" by auto
    have "kinds_le fs1 fs'"
      unfolding kinds_le_def using w1 w3 by auto
    then have "kinds_le fs1 G" using le by (rule kinds_le_trans)
    with a r1 have aG: "above G ?t = (Inr (), G)" using ct by (auto intro: above_rerun)
    from w3 have "fs' ?t = Some (File (data m))" by simp
    from kinds_le_File [OF le this] have g1: "G ?t \<noteq> Some Dir" by auto
    from w3 w2 ne have "fs' (butlast ?t) = Some Dir" by simp
    then have g2: "G (butlast ?t) = Some Dir" by (rule kinds_le_Dir [OF le])
    from g1 g2 have "write_file G ?t (data m) = (Inr (), G(?t \<mapsto> File (data m)))"
      by (simp add: write_file_ok)
    with aG False show ?thesis by (simp add: extract_member_above)
  qed
qed

section \<open>Extracting all members\<close>

lemma file_targets_Nil: "file_targets fl D [] = {}"
  by (simp add: file_targets_def)

lemma file_targets_Cons:
  "getinfo fl n = Some m \<Longrightarrow>
   file_targets fl D (n # ns) =
     (if is_dir m then {} else {D @ arcname m}) \<union> file_targets fl D ns"
  by (auto simp: file_targets_def)

lemma extract_names_Cons_ok:
  assumes "extract_names fl D (n # ns) fs = (Inr (), F)"
  obtains m fs1 where "getinfo fl n = Some m" "extract_member fs D m = (Inr (), fs1)"
    "extract_names fl D ns fs1 = (Inr (), F)"
proof -
  from assms obtain m where g: "getinfo fl n = Some m"
    by (cases "getinfo fl n") auto
  obtain r1 fs1 where e: "extract_member fs D m = (r1, fs1)" by (cases "extract_member fs D m")
  with assms g have "r1 = Inr ()" by (cases r1) auto
  with assms g e that show ?thesis by auto
qed

lemma extract_names_keeps:
  "extract_names fl D names fs = (r, F) \<Longrightarrow> fs p = Some x \<Longrightarrow> p \<notin> file_targets fl D names \<Longrightarrow>
   F p = Some x"
proof (induction names arbitrary: fs)
  case Nil
  then show ?case by simp
next
  case (Cons n ns)
  show ?case
  proof (cases "getinfo fl n")
    case None
    with Cons.prems show ?thesis by simp
  next
    case (Some m)
    obtain r1 fs1 where e: "extract_member fs D m = (r1, fs1)" by (cases "extract_member fs D m")
    from Cons.prems(3) Some have nt: "is_dir m \<or> p \<noteq> D @ arcname m"
      and rest: "p \<notin> file_targets fl D ns"
      by (auto simp: file_targets_Cons split: if_splits)
    from extract_member_keeps [OF e Cons.prems(2) nt] have 1: "fs1 p = Some x" .
    show ?thesis
    proof (cases r1)
      case (Inl err)
      with Cons.prems(1) Some e 1 show ?thesis by simp
    next
      case (Inr u)
      with Cons.prems(1) Some e have "extract_names fl D ns fs1 = (r, F)" by simp
      from Cons.IH [OF this 1 rest] show ?thesis .
    qed
  qed
qed

lemma extract_names_kinds_le:
  "extract_names fl D names fs = (Inr (), F) \<Longrightarrow> kinds_le fs F"
proof (induction names arbitrary: fs)
  case Nil
  then show ?case by (simp add: kinds_le_refl)
next
  case (Cons n ns)
  from Cons.prems obtain m fs1 where "getinfo fl n = Some m"
    and e: "extract_member fs D m = (Inr (), fs1)"
    and r: "extract_names fl D ns fs1 = (Inr (), F)"
    by (rule extract_names_Cons_ok)
  from extract_member_kinds_le [OF e] Cons.IH [OF r] show ?case by (rule kinds_le_trans)
qed



lemma extract_names_rerun:
  "extract_names fl D names fs = (Inr (), F) \<Longrightarrow> kinds_le F G \<Longrightarrow> clean D \<Longrightarrow>
   (\<And>p. G p \<noteq> F p \<Longrightarrow> p \<in> file_targets fl D names) \<Longrightarrow>
   extract_names fl D names G = (Inr (), F)"
proof (induction names arbitrary: fs G)
  case Nil
  have "G = F"
  proof
    fix p
    show "G p = F p" using Nil.prems(4) [of p] by (auto simp: file_targets_Nil)
  qed
  with Nil.prems(1) show ?case by simp
next
  case (Cons n ns)
  from Cons.prems(1) obtain m fs1 where g: "getinfo fl n = Some m"
    and e: "extract_member fs D m = (Inr (), fs1)"
    and r: "extract_names fl D ns fs1 = (Inr (), F)"
    by (rule extract_names_Cons_ok)
  let ?t = "D @ arcname m"
  let ?G1 = "if is_dir m then G else G(?t \<mapsto> File (data m))"
  from extract_names_kinds_le [OF r] Cons.prems(2) have "kinds_le fs1 G" by (rule kinds_le_trans)
  from extract_member_rerun [OF e this Cons.prems(3)]
  have eG: "extract_member G D m = (Inr (), ?G1)" .
  have le1: "kinds_le F ?G1"
  proof (cases "is_dir m")
    case True
    with Cons.prems(2) show ?thesis by simp
  next
    case False
    from extract_member_ok [OF e] False have "fs1 ?t = Some (File (data m))" by simp
    from kinds_le_File [OF extract_names_kinds_le [OF r] this]
    obtain c where "F ?t = Some (File c)" by blast
    with Cons.prems(2) False show ?thesis
      unfolding kinds_le_def by auto
  qed
  have diff: "p \<in> file_targets fl D ns" if d: "?G1 p \<noteq> F p" for p
  proof (cases "\<not> is_dir m \<and> p = ?t")
    case False
    with d have "G p \<noteq> F p" by (auto split: if_splits)
    from Cons.prems(4) [OF this] g False show ?thesis
      by (auto simp: file_targets_Cons split: if_splits)
  next
    case True
    show ?thesis
    proof (rule ccontr)
      assume n: "p \<notin> file_targets fl D ns"
      from extract_member_ok [OF e] True have "fs1 p = Some (File (data m))" by simp
      from extract_names_keeps [OF r this n] True d show False by simp
    qed
  qed
  from Cons.IH [OF r le1 Cons.prems(3) diff]
  have "extract_names fl D ns ?G1 = (Inr (), F)" .
  with g eG show ?case by simp
qed

section \<open>The steps of \<open>extract\<close>\<close>

lemma makedirs_cwd: "makedirs name w = (r, w1) \<Longrightarrow> cwd w1 = cwd w"
  by (auto simp: makedirs_def split: if_splits prod.splits)

lemma makedirs_keeps: "makedirs name w = (r, w1) \<Longrightarrow> files w p = Some x \<Longrightarrow> files w1 p = Some x"
  by (auto simp: makedirs_def split: if_splits prod.splits dest: mkdirs_keeps)

lemma makedirs_rerun:
  assumes "makedirs name w = (Inr (), w1)" and "kinds_le (files w1) (files G)" and "cwd G = cwd w"
  shows "makedirs name G = (Inr (), G)"
proof -
  from assms(1) have n: "name \<noteq> []"
    and m: "mkdirs (files w) (start_dir w name) (split_on sep name) = (Inr (), files w1)"
    by (auto simp: makedirs_def split: if_splits prod.splits)
  have s: "start_dir G name = start_dir w name" using assms(3) by (simp add: start_dir_def)
  from m have "mkdirs (files G) (start_dir w name) (split_on sep name) = (Inr (), files G)"
    by (rule mkdirs_noop) (rule kinds_le_Dir [OF assms(2)])
  with n s show ?thesis by (simp add: makedirs_def)
qed

lemma extractall_cwd: "extractall fl path w = (r, w') \<Longrightarrow> cwd w' = cwd w"
  by (auto simp: extractall_def split: prod.splits)

lemma extractall_names:
  "extractall fl path w = (r, w') \<Longrightarrow>
   extract_names fl (resolve w path) (namelist fl) (files w) = (r, files w')"
  by (auto simp: extractall_def split: prod.splits)

lemma resolve_cwd: "cwd w' = cwd w \<Longrightarrow> resolve w' p = resolve w p"
  by (simp add: resolve_def start_dir_def)

lemma destination_cwd: "cwd w' = cwd w \<Longrightarrow> destination w' zip_path output_dir = destination w zip_path output_dir"
  by (cases output_dir) (simp_all add: destination_def getcwd_def)

lemma extract_unfold:
  "endswith zip_path ''.zip'' \<Longrightarrow> path_exists w zip_path \<Longrightarrow>
   extract dec zip_path output_dir w =
     (case makedirs (destination w zip_path output_dir) w of
        (Inl e, w1) \<Rightarrow> (Inl e, w1)
      | (Inr u, w1) \<Rightarrow>
          (case ZipFile dec zip_path w1 of
             Inl e \<Rightarrow> (Inl e, w1)
           | Inr archive \<Rightarrow> extractall archive (destination w zip_path output_dir) w1))"
  unfolding destination_def by (simp add: extract_def Let_def)

lemma extract_ok_cases:
  assumes "extract dec zip_path output_dir w = (Inr (), w')"
  obtains w1 fl where "endswith zip_path ''.zip''" "path_exists w zip_path"
    "makedirs (destination w zip_path output_dir) w = (Inr (), w1)"
    "ZipFile dec zip_path w1 = Inr fl"
    "extractall fl (destination w zip_path output_dir) w1 = (Inr (), w')"
proof -
  from assms have e: "endswith zip_path ''.zip''" and p: "path_exists w zip_path"
    by (auto simp: extract_def split: if_splits)
  obtain r1 w1 where m: "makedirs (destination w zip_path output_dir) w = (r1, w1)"
    by (cases "makedirs (destination w zip_path output_dir) w")
  with assms e p have r1: "r1 = Inr ()" by (cases r1) (simp_all add: extract_unfold)
  with assms e p m obtain fl where z: "ZipFile dec zip_path w1 = Inr fl"
    by (cases "ZipFile dec zip_path w1") (simp_all add: extract_unfold)
  with assms e p m r1 have "extractall fl (destination w zip_path output_dir) w1 = (Inr (), w')"
    by (simp add: extract_unfold)
  with e p m r1 z that show ?thesis by simp
qed

lemma ZipFile_stat:
  "ZipFile dec file w = Inr fl \<longleftrightarrow> (\<exists>b. stat w file = Some (File b) \<and> dec b = Inr fl)"
  by (auto simp: ZipFile_def split: option.splits node.splits sum.splits)






section \<open>Corrupt archives\<close>




section \<open>Running \<open>extract\<close> twice\<close>

text \<open>
  C7, as stated, fails: an archive extracted into its own directory can hold an entry of
  its own name. The first run succeeds and replaces the archive by the entry's (empty)
  content; the second run finds a file that is not an archive.
\<close>

theorem second_run_can_fail:
  "fst (extract example_decoder ''/w/a.zip'' (Some ''/w'') example_world) = Inr () \<and>
   fst (extract example_decoder ''/w/a.zip'' (Some ''/w'')
          (snd (extract example_decoder ''/w/a.zip'' (Some ''/w'') example_world))) =
     Inl (BadZipFile ''File is not a zip file'')"
  by code_simp

text \<open>
  C7, amended: for every archive and destination, if a first run of \<open>extract\<close> succeeds and
  leaves the archive file as it was, then a second run with the same inputs succeeds too,
  and leaves the file system exactly as the first run did: \<open>makedirs\<close> accepts the
  directories that exist, and every file is written again with the same bytes.
\<close>

theorem extract_twice:
  assumes "fst (extract dec zip_path output_dir w) = Inr ()"
    and "stat (snd (extract dec zip_path output_dir w)) zip_path = stat w zip_path"
  shows "extract dec zip_path output_dir (snd (extract dec zip_path output_dir w)) =
           (Inr (), snd (extract dec zip_path output_dir w))"
proof -
  let ?d = "destination w zip_path output_dir"
  obtain r w' where run0: "extract dec zip_path output_dir w = (r, w')"
    by (cases "extract dec zip_path output_dir w")
  with assms(1) have run: "extract dec zip_path output_dir w = (Inr (), w')" by simp
  from assms(2) run have same: "stat w' zip_path = stat w zip_path" by simp
  from run obtain w1 fl where e: "endswith zip_path ''.zip''" and p: "path_exists w zip_path"
    and m: "makedirs ?d w = (Inr (), w1)"
    and z: "ZipFile dec zip_path w1 = Inr fl"
    and x: "extractall fl ?d w1 = (Inr (), w')"
    by (rule extract_ok_cases)
  have c1: "cwd w1 = cwd w" by (rule makedirs_cwd [OF m])
  have c': "cwd w' = cwd w" using extractall_cwd [OF x] c1 by simp
  have d': "destination w' zip_path output_dir = ?d" by (rule destination_cwd [OF c'])
  from extractall_names [OF x]
  have n: "extract_names fl (resolve w1 ?d) (namelist fl) (files w1) = (Inr (), files w')" .
  have le: "kinds_le (files w1) (files w')" by (rule extract_names_kinds_le [OF n])
  from p same have p': "path_exists w' zip_path" by (simp add: path_exists_def)
  have m': "makedirs ?d w' = (Inr (), w')" by (rule makedirs_rerun [OF m le c'])
  from p obtain y where y: "stat w zip_path = Some y" by (auto simp: path_exists_def)
  have "stat w1 zip_path = Some y"
    by (rule stat_mono [OF y makedirs_keeps [OF m] c1])
  with z y same have z': "ZipFile dec zip_path w' = Inr fl" by (simp add: ZipFile_stat)
  have r: "resolve w' ?d = resolve w1 ?d"
    by (rule resolve_cwd) (simp add: c' c1)
  have "extract_names fl (resolve w1 ?d) (namelist fl) (files w') = (Inr (), files w')"
    using n kinds_le_refl clean_resolve by (rule extract_names_rerun) simp
  with r have x': "extractall fl ?d w' = (Inr (), w')" by (simp add: extractall_def)
  from m' z' x' have "extract dec zip_path output_dir w' = (Inr (), w')"
    by (simp add: extract_unfold [OF e p'] d')
  with run show ?thesis by simp
qed

theorem extract_twice_witness:
  "fst (extract example_decoder ''/tmp/foo.zip'' None example_world) = Inr () \<and>
   stat (snd (extract example_decoder ''/tmp/foo.zip'' None example_world)) ''/tmp/foo.zip'' =
     stat example_world ''/tmp/foo.zip'' \<and>
   extract example_decoder ''/tmp/foo.zip'' None
       (snd (extract example_decoder ''/tmp/foo.zip'' None example_world)) =
     (Inr (), snd (extract example_decoder ''/tmp/foo.zip'' None example_world))"
proof -
  have h1: "fst (extract example_decoder ''/tmp/foo.zip'' None example_world) = Inr ()"
    by code_simp
  have h2: "stat (snd (extract example_decoder ''/tmp/foo.zip'' None example_world)) ''/tmp/foo.zip'' =
              stat example_world ''/tmp/foo.zip''"
    by code_simp
  from extract_twice [OF h1 h2] h1 h2 show ?thesis by simp
qed

section \<open>What a successful run leaves in the destination\<close>




end
